theory Spec2Isabelle
  imports Complex_Main "HOL-Library.Word" "HOL-Library.Multiset"
    "HOL-Library.Char_ord" "HOL-Library.List_Lexorder" "HOL-Library.Product_Lexorder"
begin

section \<open>Data model (graphgenerator\_types.h, m1ModelFormat.cpp)\<close>

text \<open>
  \<^verbatim>\<open>NodeID\<close>, \<^verbatim>\<open>Amount\<close> and \<^verbatim>\<open>Degree\<close> are \<^verbatim>\<open>std::uint64_t\<close>; \<^verbatim>\<open>size_t\<close> is
  64 bits wide as well.  A \<^verbatim>\<open>ContinuousNodeID\<close> (\<^verbatim>\<open>long double\<close>) and a \<^verbatim>\<open>Probability\<close>
  (\<^verbatim>\<open>float\<close>) are the real numbers that the machine values stand for; infinities and
  NaN are not values here.  An arithmetic operation of the machine is the exact
  operation followed by the rounding to the format of its result.  The roundings
  \<open>to_float\<close>, \<open>to_double\<close> and \<open>to_long_double\<close> are parameters of the functions that
  compute with these numbers.
\<close>

type_synonym u64 = "64 word"
type_synonym ContinuousNodeID = real
type_synonym Probability = real

text \<open>
  A \<^verbatim>\<open>std::map<K, V>\<close> is an association list read through \<^const>\<open>map_of\<close>: the first
  binding of a key is its value.  \<^verbatim>\<open>m[k] = v\<close> puts a binding in front, \<^verbatim>\<open>m.contains(k)\<close>
  asks whether \<^term>\<open>map_of m k\<close> is defined, and a range-for visits every key once, in
  ascending order.
\<close>

type_synonym ('k, 'v) std_map = "('k \<times> 'v) list"

definition map_set :: "'k \<Rightarrow> 'v \<Rightarrow> ('k, 'v) std_map \<Rightarrow> ('k, 'v) std_map" where
  "map_set k v m = (k, v) # m"

definition map_contains :: "('k, 'v) std_map \<Rightarrow> 'k \<Rightarrow> bool" where
  "map_contains m k = (map_of m k \<noteq> None)"

definition map_items :: "('k::linorder, 'v) std_map \<Rightarrow> ('k \<times> 'v) list" where
  "map_items m = map (\<lambda>k. (k, the (map_of m k))) (sort (remdups (map fst m)))"

record Meta_Record =
  meta_name :: string
  meta_values :: "(string, string) std_map"

record Node_Record =
  startID :: ContinuousNodeID
  endID :: ContinuousNodeID
  node_type :: string

record Edge_Block =
  startX :: ContinuousNodeID
  endX :: ContinuousNodeID
  startY :: ContinuousNodeID
  endY :: ContinuousNodeID
  expression_probability :: Probability

record Edge_Record =
  edge_type :: string
  blocks :: "Edge_Block list"

record m1_data =
  meta :: Meta_Record
  nodes :: "Node_Record list"
  edges :: "Edge_Record list"

text \<open>
  Every \<^verbatim>\<open>throw std::runtime_error\<close> of the sources is one constructor.  The last three
  are not exceptions: they stand for an access outside a vector, a division by zero and
  a float-to-integer cast out of range, where the C++ program has no defined behaviour.
\<close>

datatype error =
    Scale_Zero
  | Cannot_Open string
  | Unexpected_Directive string
  | Unexpected_Line string
  | Missing_Meta
  | Missing_Nodes
  | Missing_Edges
  | Equals_In_Key string
  | Newline_In_Meta string
  | Newline_In_Node_Type string
  | Newline_In_Edge_Type string
  | Type_Too_Long string
  | Out_Of_Bounds
  | Division_By_Zero
  | Cast_Out_Of_Range

text \<open>Sequencing of steps that can fail.\<close>

definition bindE :: "error + 'a \<Rightarrow> ('a \<Rightarrow> error + 'b) \<Rightarrow> error + 'b" where
  "bindE r f = (case r of Inl e \<Rightarrow> Inl e | Inr v \<Rightarrow> f v)"

subsection \<open>Binary floating-point formats\<close>

text \<open>
  Rounding to the nearest number with a significand of \<open>p\<close> bits, ties to the even
  significand: the rounding of IEEE 754 for numbers in the normal range of a format.
  \<^verbatim>\<open>float\<close> has 24 bits, \<^verbatim>\<open>double\<close> 53, and the \<^verbatim>\<open>long double\<close> of the x86 has 64.  The
  exponent has no bounds here: numbers below the smallest normal number and above the
  largest number of a format are rounded as if the format went on.
\<close>

definition round_even :: "real \<Rightarrow> int" where
  "round_even y =
     (let f = \<lfloor>y\<rfloor> in
      if y - of_int f < 1 / 2 then f
      else if 1 / 2 < y - of_int f then f + 1
      else if even f then f else f + 1)"

definition round_to_precision :: "nat \<Rightarrow> real \<Rightarrow> real" where
  "round_to_precision p x =
     (if x = 0 then 0
      else let ulp = 2 powi (\<lfloor>log 2 \<bar>x\<bar>\<rfloor> - (int p - 1))
           in of_int (round_even (x / ulp)) * ulp)"

definition binary32 :: "real \<Rightarrow> real" where
  "binary32 = round_to_precision 24"

definition binary64 :: "real \<Rightarrow> real" where
  "binary64 = round_to_precision 53"

definition x87_extended :: "real \<Rightarrow> real" where
  "x87_extended = round_to_precision 64"

section \<open>Scaling a model (scale\_m1\_data)\<close>

text \<open>
  \<^verbatim>\<open>std::stof\<close> and \<^verbatim>\<open>std::to_string\<close> belong to the C++ library, not to the
  repository: they are parameters.  \<open>stof s = None\<close> is the exception of \<^verbatim>\<open>std::stof\<close>.
  The factor is a \<^verbatim>\<open>float\<close>.  A probability is divided in \<^verbatim>\<open>float\<close>, a corner is
  multiplied in \<^verbatim>\<open>long double\<close>, and the old scale, a \<^verbatim>\<open>double\<close>, is multiplied in
  \<^verbatim>\<open>double\<close>.
\<close>

definition scale_block :: "(real \<Rightarrow> real) \<Rightarrow> (real \<Rightarrow> real) \<Rightarrow> real \<Rightarrow> Edge_Block \<Rightarrow> Edge_Block" where
  "scale_block to_float to_long_double scale b =
     (let adapted_probability = to_float (expression_probability b / scale);
          adapted_probability = (if adapted_probability > 1 then 1 else adapted_probability)
      in \<lparr>startX = to_long_double (startX b * scale), endX = to_long_double (endX b * scale),
          startY = to_long_double (startY b * scale), endY = to_long_double (endY b * scale),
          expression_probability = adapted_probability\<rparr>)"

definition scale_m1_data ::
  "(string \<Rightarrow> real option) \<Rightarrow> (real \<Rightarrow> string) \<Rightarrow> (real \<Rightarrow> real) \<Rightarrow> (real \<Rightarrow> real) \<Rightarrow>
   (real \<Rightarrow> real) \<Rightarrow> m1_data \<Rightarrow> real \<Rightarrow> error + m1_data" where
  "scale_m1_data stof to_string to_float to_double to_long_double data scale =
     (if scale = 0 then Inl Scale_Zero
      else
        let copied = fold (\<lambda>(k, v) m. map_set k v m) (map_items (meta_values (meta data))) [];
            old_scale =
              (if map_contains (meta_values (meta data)) ''SCALE''
               then (case stof (the (map_of (meta_values (meta data)) ''SCALE'')) of
                       Some r \<Rightarrow> r
                     | None \<Rightarrow> 1)
               else 1);
            new_values = map_set ''SCALE'' (to_string (to_double (old_scale * scale))) copied;
            new_nodes =
              map (\<lambda>n. \<lparr>startID = to_long_double (startID n * scale),
                         endID = to_long_double (endID n * scale),
                         node_type = node_type n\<rparr>) (nodes data);
            new_edges =
              map (\<lambda>r. \<lparr>edge_type = edge_type r,
                         blocks = map (scale_block to_float to_long_double scale) (blocks r)\<rparr>)
                (edges data)
        in Inr \<lparr>meta = \<lparr>meta_name = meta_name (meta data), meta_values = new_values\<rparr>,
                nodes = new_nodes, edges = new_edges\<rparr>)"

section \<open>The sampler (Generator.cpp)\<close>

text \<open>
  A \<^verbatim>\<open>Record\<close> is a block with integer corners; an edge of the edge file is a row
  \<^verbatim>\<open>srcId <TAB> dstId <TAB> edgeType\<close>.
\<close>

type_synonym Record = "u64 \<times> u64 \<times> u64 \<times> u64 \<times> Probability"
type_synonym Edge = "u64 \<times> u64 \<times> string"

text \<open>
  \<^verbatim>\<open>static_cast<NodeID>(x)\<close> drops the fractional part; the C++ standard defines it only
  when the truncated value fits the type.
\<close>

definition cast_NodeID :: "real \<Rightarrow> error + u64" where
  "cast_NodeID x =
     (if - 1 < x \<and> x < 2 ^ 64
      then Inr (word_of_int (if x < 0 then \<lceil>x\<rceil> else \<lfloor>x\<rfloor>))
      else Inl Cast_Out_Of_Range)"

definition convert_start_of_block :: "real \<Rightarrow> error + u64" where
  "convert_start_of_block x = (case cast_NodeID x of Inl e \<Rightarrow> Inl e | Inr v \<Rightarrow> Inr (v + 1))"

definition convert_end_of_block :: "real \<Rightarrow> error + u64" where
  "convert_end_of_block x = cast_NodeID x"

definition MAX_ALLOWED_TYPE_LENGTH :: nat where
  "MAX_ALLOWED_TYPE_LENGTH = 64"

text \<open>
  \<^verbatim>\<open>read_edge_block_data\<close>: the loop over \<^verbatim>\<open>data.blocks\<close>, with its \<^verbatim>\<open>continue\<close> for a block
  whose integer corners are out of order and its clamp of the probability.
\<close>

fun convert_blocks :: "Edge_Block list \<Rightarrow> error + Record list" where
  "convert_blocks [] = Inr []"
| "convert_blocks (b # bs) =
     bindE (convert_start_of_block (startX b)) (\<lambda>s_X.
     bindE (convert_end_of_block (endX b)) (\<lambda>e_X.
     bindE (convert_start_of_block (startY b)) (\<lambda>s_Y.
     bindE (convert_end_of_block (endY b)) (\<lambda>e_Y.
       if e_X < s_X \<or> e_Y < s_Y then convert_blocks bs
       else
         bindE (convert_blocks bs) (\<lambda>res.
           Inr ((s_X, e_X, s_Y, e_Y,
                 if expression_probability b > 1 then 1 else expression_probability b) # res))))))"

definition read_edge_block_data :: "Edge_Record \<Rightarrow> error + Record list" where
  "read_edge_block_data data =
     (if length (edge_type data) > MAX_ALLOWED_TYPE_LENGTH then Inl (Type_Too_Long (edge_type data))
      else convert_blocks (blocks data))"

text \<open>
  The \<^verbatim>\<open>while (true)\<close> loop of one block.  \<open>jump n\<close> is the value of \<^verbatim>\<open>jump_distance\<close> at
  the \<open>n\<close>-th draw of the worker's generator: the generator, the uniform distribution
  and the float arithmetic on the draw belong to the C++ library, so the distance is a
  parameter.  The loop has no bound in the source: the fuel counts its iterations, and
  \<open>None\<close> says that the fuel ran out before the loop left.  All of \<^verbatim>\<open>offset_x\<close>,
  \<^verbatim>\<open>next_offset\<close> and \<^verbatim>\<open>idx_y\<close> are 64-bit unsigned and wrap around.  The second
  component of the result is the number of draws made so far.
\<close>

fun jump_loop ::
  "nat \<Rightarrow> (nat \<Rightarrow> u64) \<Rightarrow> nat \<Rightarrow> u64 \<Rightarrow> u64 \<Rightarrow> u64 \<Rightarrow> u64 \<Rightarrow> u64 \<Rightarrow>
   ((u64 \<times> u64) list \<times> nat) option" where
  "jump_loop 0 jump n len_x s_X e_Y offset_x idx_y = None"
| "jump_loop (Suc fuel) jump n len_x s_X e_Y offset_x idx_y =
     (let jump_distance = jump n;
          next_offset = offset_x + jump_distance;
          offset_x' = next_offset mod len_x;
          idx_y' = idx_y + next_offset div len_x
      in if idx_y' > e_Y then Some ([], Suc n)
         else
           (case jump_loop fuel jump (Suc n) len_x s_X e_Y offset_x' idx_y' of
              None \<Rightarrow> None
            | Some (es, n') \<Rightarrow> Some ((s_X + offset_x', idx_y') # es, n')))"

text \<open>
  One iteration of the \<^verbatim>\<open>for\<close> loop over the worker's blocks; \<^verbatim>\<open>next_offset % len_x\<close>
  with \<^verbatim>\<open>len_x = 0\<close> is a division by zero.
\<close>

definition block_edges ::
  "nat \<Rightarrow> (nat \<Rightarrow> Probability \<Rightarrow> u64) \<Rightarrow> string \<Rightarrow> Record \<Rightarrow> nat \<Rightarrow>
   (error + Edge list \<times> nat) option" where
  "block_edges fuel jump e_type r n =
     (case r of (s_X, e_X, s_Y, e_Y, prob) \<Rightarrow>
        let len_x = (e_X - s_X) + 1 in
        if len_x = 0 then Some (Inl Division_By_Zero)
        else
          (case jump_loop fuel (\<lambda>i. jump i prob) n len_x s_X e_Y 0 s_Y of
             None \<Rightarrow> None
           | Some (es, n') \<Rightarrow> Some (Inr (map (\<lambda>(x, y). (x, y, e_type)) es, n'))))"

text \<open>
  The \<^verbatim>\<open>for (idx = workload_start; idx <= workload_end; ++idx)\<close> loop.  \<^verbatim>\<open>data[idx]\<close>
  outside the vector is \<^const>\<open>Out_Of_Bounds\<close>.  The index is a natural number: it is
  below the vector's size whenever it is incremented, so it does not wrap.
\<close>

function multithread_blocks ::
  "nat \<Rightarrow> (nat \<Rightarrow> Probability \<Rightarrow> u64) \<Rightarrow> string \<Rightarrow> Record list \<Rightarrow> nat \<Rightarrow> u64 \<Rightarrow> nat \<Rightarrow>
   (error + Edge list) option" where
  "multithread_blocks fuel jump e_type data idx workload_end n =
     (if idx \<le> unat workload_end then
        if idx < length data then
          (case block_edges fuel jump e_type (data ! idx) n of
             None \<Rightarrow> None
           | Some (Inl e) \<Rightarrow> Some (Inl e)
           | Some (Inr (es, n')) \<Rightarrow>
               (case multithread_blocks fuel jump e_type data (Suc idx) workload_end n' of
                  None \<Rightarrow> None
                | Some (Inl e) \<Rightarrow> Some (Inl e)
                | Some (Inr es') \<Rightarrow> Some (Inr (es @ es'))))
        else Some (Inl Out_Of_Bounds)
      else Some (Inr []))"
  by pat_completeness auto
termination
  by (relation "measure (\<lambda>(fuel, jump, e_type, data, idx, workload_end, n). length data - idx)") auto

definition multithread_generate_graph ::
  "nat \<Rightarrow> (u64 \<Rightarrow> nat \<Rightarrow> Probability \<Rightarrow> u64) \<Rightarrow> Record list \<Rightarrow> u64 \<Rightarrow> u64 \<Rightarrow> u64 \<Rightarrow> string \<Rightarrow>
   (error + Edge list) option" where
  "multithread_generate_graph fuel jump data workload_start workload_end seed e_type =
     multithread_blocks fuel (jump seed) e_type data (unat workload_start) workload_end 0"

text \<open>
  \<^verbatim>\<open>generate_graph\<close>: the number of threads (\<^verbatim>\<open>hardware_concurrency()\<close> is an
  \<^verbatim>\<open>unsigned int\<close>, and the subtraction is done at that width), the ranges handed to
  the threads, and the loop over the edge types.  \<open>rdm_gen k\<close> is the \<open>k\<close>-th output of
  the \<^verbatim>\<open>std::mt19937_64\<close> seeded with the caller's seed.
\<close>

definition n_threads_of :: "32 word \<Rightarrow> u64" where
  "n_threads_of hardware_concurrency =
     (let n_threads = ucast (hardware_concurrency - 1) in if n_threads \<le> 1 then 1 else n_threads)"

fun thread_ranges :: "nat \<Rightarrow> u64 \<Rightarrow> u64 \<Rightarrow> u64 \<Rightarrow> u64 \<Rightarrow> (u64 \<times> u64) list" where
  "thread_ranges 0 block_size workload_size idx_start idx_end = []"
| "thread_ranges (Suc threads_left) block_size workload_size idx_start idx_end =
     (idx_start, idx_end) #
     (let idx_start' = idx_end + 1;
          idx_end' = idx_start' + workload_size;
          idx_end' = (if idx_end' > block_size then block_size - 1 else idx_end')
      in thread_ranges threads_left block_size workload_size idx_start' idx_end')"

definition workloads :: "32 word \<Rightarrow> u64 \<Rightarrow> (u64 \<times> u64) list" where
  "workloads hardware_concurrency block_size =
     (let n_threads = n_threads_of hardware_concurrency;
          workload_size = block_size div n_threads;
          overflow_workload_size = workload_size mod n_threads
      in thread_ranges (unat n_threads) block_size workload_size 0
           (overflow_workload_size + workload_size - 1))"

text \<open>
  Joining the threads: the edge type is finished when every worker has returned.  The
  result lists what each worker wrote, in the order of the threads.
\<close>

fun join_all :: "(error + 'a) option list \<Rightarrow> (error + 'a list) option" where
  "join_all [] = Some (Inr [])"
| "join_all (r # rs) =
     (case r of
        None \<Rightarrow> None
      | Some (Inl e) \<Rightarrow> Some (Inl e)
      | Some (Inr x) \<Rightarrow>
          (case join_all rs of
             None \<Rightarrow> None
           | Some (Inl e) \<Rightarrow> Some (Inl e)
           | Some (Inr xs) \<Rightarrow> Some (Inr (x # xs))))"

fun generate_edge_types ::
  "nat \<Rightarrow> (u64 \<Rightarrow> nat \<Rightarrow> Probability \<Rightarrow> u64) \<Rightarrow> (nat \<Rightarrow> u64) \<Rightarrow> 32 word \<Rightarrow>
   (string \<times> Record list) list \<Rightarrow> nat \<Rightarrow> (error + Edge list list list) option" where
  "generate_edge_types fuel jump rdm_gen hardware_concurrency [] k = Some (Inr [])"
| "generate_edge_types fuel jump rdm_gen hardware_concurrency ((e_type, block) # rest) k =
     (let block_size = (word_of_nat (length block) :: u64);
          threads =
            (if block_size < 100
             then [multithread_generate_graph fuel jump block 0 (block_size - 1) (rdm_gen k) e_type]
             else
               map (\<lambda>(thread_no, idx_start, idx_end).
                      multithread_generate_graph fuel jump block idx_start idx_end
                        (rdm_gen (k + thread_no)) e_type)
                 (enumerate 0 (workloads hardware_concurrency block_size)))
      in case join_all threads of
           None \<Rightarrow> None
         | Some (Inl e) \<Rightarrow> Some (Inl e)
         | Some (Inr written) \<Rightarrow>
             (case generate_edge_types fuel jump rdm_gen hardware_concurrency rest
                     (k + length threads) of
                None \<Rightarrow> None
              | Some (Inl e) \<Rightarrow> Some (Inl e)
              | Some (Inr others) \<Rightarrow> Some (Inr (written # others))))"

fun convert_all :: "Edge_Record list \<Rightarrow> error + (string \<times> Record list) list" where
  "convert_all [] = Inr []"
| "convert_all (e # es) =
     bindE (read_edge_block_data e) (\<lambda>converted.
     bindE (convert_all es) (\<lambda>rest. Inr ((edge_type e, converted) # rest)))"

text \<open>
  The rows of the node file for one node record: \<^verbatim>\<open>for (NodeID i = start; i <= end; ++i)\<close>.
  With \<^verbatim>\<open>end\<close> the largest 64-bit value the condition holds for every \<^verbatim>\<open>i\<close>.
\<close>

definition node_rows :: "Node_Record \<Rightarrow> (error + (u64 \<times> string) list) option" where
  "node_rows r =
     (case convert_start_of_block (startID r) of
        Inl e \<Rightarrow> Some (Inl e)
      | Inr start_id \<Rightarrow>
          (case convert_end_of_block (endID r) of
             Inl e \<Rightarrow> Some (Inl e)
           | Inr end_id \<Rightarrow>
               if start_id \<le> end_id \<and> end_id = - 1 then None
               else Some (Inr (map (\<lambda>i. (word_of_nat i, node_type r))
                                 [unat start_id ..< Suc (unat end_id)]))))"

definition generate_graph ::
  "nat \<Rightarrow> (u64 \<Rightarrow> nat \<Rightarrow> Probability \<Rightarrow> u64) \<Rightarrow> (u64 \<Rightarrow> nat \<Rightarrow> u64) \<Rightarrow> 32 word \<Rightarrow>
   m1_data \<Rightarrow> u64 \<Rightarrow> (error + (u64 \<times> string) list \<times> Edge list list list) option" where
  "generate_graph fuel jump mt19937_64 hardware_concurrency data seed =
     (case join_all (map node_rows (nodes data)) of
        None \<Rightarrow> None
      | Some (Inl e) \<Rightarrow> Some (Inl e)
      | Some (Inr node_file) \<Rightarrow>
          (case convert_all (edges data) of
             Inl e \<Rightarrow> Some (Inl e)
           | Inr block_data \<Rightarrow>
               (case generate_edge_types fuel jump (mt19937_64 seed) hardware_concurrency
                       block_data 0 of
                  None \<Rightarrow> None
                | Some (Inl e) \<Rightarrow> Some (Inl e)
                | Some (Inr written) \<Rightarrow> Some (Inr (concat node_file, written)))))"

text \<open>
  The edge file.  Every worker appends to the shared stream under the write lock, so
  the file of one edge type is an interleaving of what the workers wrote; the types
  follow each other.  A schedule names, step by step, the worker that writes its next
  row (a worker writes several rows per lock, which is a schedule that repeats it).
\<close>

fun write_order :: "nat list \<Rightarrow> 'a list list \<Rightarrow> 'a list" where
  "write_order [] buffers = []"
| "write_order (w # schedule) buffers =
     (if w < length buffers then
        (case buffers ! w of
           [] \<Rightarrow> write_order schedule buffers
         | x # xs \<Rightarrow> x # write_order schedule (buffers[w := xs]))
      else write_order schedule buffers)"

definition all_written :: "nat list \<Rightarrow> 'a list list \<Rightarrow> bool" where
  "all_written schedule buffers =
     (length (write_order schedule buffers) = sum_list (map length buffers))"

fun edge_file :: "nat list list \<Rightarrow> 'a list list list \<Rightarrow> 'a list option" where
  "edge_file [] [] = Some []"
| "edge_file (schedule # schedules) (buffers # rest) =
     (if all_written schedule buffers
      then map_option ((@) (write_order schedule buffers)) (edge_file schedules rest)
      else None)"
| "edge_file _ _ = None"

definition sample_edges ::
  "nat \<Rightarrow> (u64 \<Rightarrow> nat \<Rightarrow> Probability \<Rightarrow> u64) \<Rightarrow> (u64 \<Rightarrow> nat \<Rightarrow> u64) \<Rightarrow> 32 word \<Rightarrow>
   nat list list \<Rightarrow> m1_data \<Rightarrow> u64 \<Rightarrow> Edge list option" where
  "sample_edges fuel jump mt19937_64 hardware_concurrency schedules data seed =
     (case generate_graph fuel jump mt19937_64 hardware_concurrency data seed of
        Some (Inr (node_file, written)) \<Rightarrow> edge_file schedules written
      | _ \<Rightarrow> None)"

text \<open>
  One of the schedules: the workers write one after the other, each all its rows.
\<close>

fun sequential :: "nat \<Rightarrow> 'a list list \<Rightarrow> nat list" where
  "sequential w [] = []"
| "sequential w (buffer # buffers) = replicate (length buffer) w @ sequential (Suc w) buffers"

section \<open>Multi-instance generation (main.cpp)\<close>

text \<open>
  \<^verbatim>\<open>std::filesystem::path\<close> and \<^verbatim>\<open>std::to_string\<close> belong to the C++ library.  The
  decomposition of a path is written out here for POSIX paths, where \<^verbatim>\<open>/\<close> is the only
  separator and there is no root name: \<^verbatim>\<open>filename()\<close> is what follows the last separator;
  \<^verbatim>\<open>parent_path()\<close> is the path up to the last component, without the separators in
  front of it, the root directory for a file in the root, the path itself when it is only
  a root, and empty when there is no separator; \<^verbatim>\<open>extension()\<close> starts at the last dot of
  the filename, unless that dot comes first or the filename is \<^verbatim>\<open>.\<close> or \<^verbatim>\<open>..\<close>; and
  \<^verbatim>\<open>stem()\<close> is the filename without its extension.
\<close>

definition filename :: "string \<Rightarrow> string" where
  "filename p = rev (takeWhile (\<lambda>c. c \<noteq> CHR ''/'') (rev p))"

definition parent_path :: "string \<Rightarrow> string" where
  "parent_path p =
     (let dir = take (length p - length (filename p)) p;
          trimmed = rev (dropWhile (\<lambda>c. c = CHR ''/'') (rev dir))
      in if dir = [] then []
         else if trimmed = [] then (if filename p = [] then p else ''/'')
         else trimmed)"

definition extension :: "string \<Rightarrow> string" where
  "extension p =
     (let f = filename p;
          ext = rev (takeWhile (\<lambda>c. c \<noteq> CHR ''.'') (rev f))
      in if f = ''.'' \<or> f = ''..'' \<or> CHR ''.'' \<notin> set f \<or> length ext + 1 = length f then []
         else CHR ''.'' # ext)"

definition stem :: "string \<Rightarrow> string" where
  "stem p = (let f = filename p in take (length f - length (extension p)) f)"

text \<open>\<^verbatim>\<open>std::to_string\<close> of a \<^verbatim>\<open>size_t\<close>: the decimal digits.\<close>

function to_string_size :: "nat \<Rightarrow> string" where
  "to_string_size n =
     (if n < 10 then [char_of (48 + n)]
      else to_string_size (n div 10) @ [char_of (48 + n mod 10)])"
  by pat_completeness auto
termination
  by (relation "measure id") auto

declare to_string_size.simps [simp del]

text \<open>
  The \<^verbatim>\<open>IGenerate\<close> case of \<^verbatim>\<open>main\<close>: the calls of \<^verbatim>\<open>generate_graph\<close> it makes, each with
  its two file names and its seed.  \<open>rng_seeds k\<close> is the \<open>k\<close>-th output of the runtime's
  generator, and \<open>k\<close> counts the outputs drawn before the instruction.
\<close>

definition instance_file :: "string \<Rightarrow> nat \<Rightarrow> string" where
  "instance_file path i =
     parent_path path @ ''/'' @ stem path @ ''_'' @ to_string_size i @ extension path"

definition generate_calls ::
  "(nat \<Rightarrow> u64) \<Rightarrow> nat \<Rightarrow> string \<Rightarrow> string \<Rightarrow> nat \<Rightarrow> (string \<times> string \<times> u64) list" where
  "generate_calls rng_seeds k nodefile_path edge_file_path n_to_generate =
     (if n_to_generate = 1 then [(nodefile_path, edge_file_path, rng_seeds k)]
      else map (\<lambda>i. (instance_file nodefile_path i, instance_file edge_file_path i,
                      rng_seeds (k + i)))
             [0..<n_to_generate])"

section \<open>The M1 text format (read\_m1\_file, write\_m1\_file)\<close>

text \<open>
  The content of a file is a string.  \<^verbatim>\<open>std::getline\<close> cuts it at the newlines; what
  follows the last newline is a line only when it is not empty.
\<close>

function getlines :: "string \<Rightarrow> string list" where
  "getlines s =
     (if s = [] then []
      else takeWhile (\<lambda>c. c \<noteq> CHR 0x0A) s
           # getlines (drop 1 (dropWhile (\<lambda>c. c \<noteq> CHR 0x0A) s)))"
  by pat_completeness auto
termination
proof (relation "measure length")
  fix s :: string
  assume "s \<noteq> []"
  then have "0 < length s"
    by simp
  moreover have "length (dropWhile (\<lambda>c. c \<noteq> CHR 0x0A) s) \<le> length s"
    by (rule length_dropWhile_le)
  ultimately have "length (dropWhile (\<lambda>c. c \<noteq> CHR 0x0A) s) - 1 < length s"
    by linarith
  then show "(drop 1 (dropWhile (\<lambda>c. c \<noteq> CHR 0x0A) s), s) \<in> measure length"
    by simp
qed simp

declare getlines.simps [simp del]

text \<open>
  \<^verbatim>\<open>std::getline(stream, field, c)\<close> reads up to the first \<^verbatim>\<open>c\<close> and leaves what follows it
  in the stream; a field read from an exhausted stream stays empty.
\<close>

definition split_at :: "char \<Rightarrow> string \<Rightarrow> string \<times> string" where
  "split_at c s = (takeWhile (\<lambda>x. x \<noteq> c) s, drop 1 (dropWhile (\<lambda>x. x \<noteq> c) s))"

definition starts_with :: "string \<Rightarrow> string \<Rightarrow> bool" where
  "starts_with prefix s = (take (length prefix) s = prefix)"

definition strip_cr :: "string \<Rightarrow> string" where
  "strip_cr line = (if line \<noteq> [] \<and> last line = CHR 0x0D then butlast line else line)"

datatype ReaderMode = NONE | META | NODES | EDGES

record reader_state =
  result :: m1_data
  has_meta :: bool
  has_node :: bool
  has_edges :: bool
  current_edge_type :: string
  current_blocks :: "Edge_Block list"
  mode :: ReaderMode

definition initial_state :: reader_state where
  "initial_state =
     \<lparr>result = \<lparr>meta = \<lparr>meta_name = [], meta_values = []\<rparr>, nodes = [], edges = []\<rparr>,
      has_meta = False, has_node = False, has_edges = False,
      current_edge_type = [], current_blocks = [], mode = NONE\<rparr>"

text \<open>
  The blocks read under the current edge type become a record when the next
  \<^verbatim>\<open># EDGES\<close> directive or the end of the file is reached, if there are any.
\<close>

definition save_blocks :: "reader_state \<Rightarrow> reader_state" where
  "save_blocks st =
     (if current_blocks st \<noteq> [] then
        st\<lparr>result := (result st)\<lparr>edges := edges (result st) @
                 [\<lparr>edge_type = current_edge_type st, blocks = current_blocks st\<rparr>]\<rparr>,
           has_edges := True\<rparr>
      else st)"

text \<open>
  A line that starts with \<^verbatim>\<open>#\<close>.  \<^verbatim>\<open>line.find('=')\<close> is \<^verbatim>\<open>npos\<close> when there is no \<^verbatim>\<open>=\<close>,
  and \<^verbatim>\<open>npos + 1\<close> is 0: the edge type is then the whole line.
\<close>

definition read_directive :: "reader_state \<Rightarrow> string \<Rightarrow> error + reader_state" where
  "read_directive st line =
     (if starts_with ''# META'' line then Inr (st\<lparr>mode := META\<rparr>)
      else if starts_with ''# NODES'' line then Inr (st\<lparr>mode := NODES\<rparr>)
      else if starts_with ''# EDGES'' line then
        Inr ((save_blocks st)
               \<lparr>mode := EDGES,
                current_edge_type :=
                  (if CHR ''='' \<in> set line then snd (split_at CHR ''='' line) else line),
                current_blocks := []\<rparr>)
      else Inl (Unexpected_Directive line))"

definition read_meta :: "reader_state \<Rightarrow> string \<Rightarrow> reader_state" where
  "read_meta st line =
     (let (key, val) = split_at CHR ''='' line in
      if key = [] \<or> val = [] then st
      else if key = ''NAME'' then
        st\<lparr>result := (result st)\<lparr>meta := (meta (result st))\<lparr>meta_name := val\<rparr>\<rparr>,
           has_meta := True\<rparr>
      else
        st\<lparr>result := (result st)\<lparr>meta := (meta (result st))
                 \<lparr>meta_values := map_set key val (meta_values (meta (result st)))\<rparr>\<rparr>\<rparr>)"

text \<open>
  \<^verbatim>\<open>std::stold\<close> and \<^verbatim>\<open>std::stof\<close> are parameters; \<open>None\<close> is their exception, which the
  reader catches.
\<close>

definition parse_node :: "(string \<Rightarrow> real option) \<Rightarrow> string \<Rightarrow> Node_Record option" where
  "parse_node stold line =
     (let (start_text, rest) = split_at CHR '','' line;
          (end_text, type_text) = split_at CHR '','' rest
      in if start_text = [] \<or> end_text = [] \<or> type_text = [] then None
         else
           (case stold start_text of
              None \<Rightarrow> None
            | Some start_id \<Rightarrow>
                (case stold end_text of
                   None \<Rightarrow> None
                 | Some end_id \<Rightarrow>
                     Some \<lparr>startID = start_id, endID = end_id, node_type = type_text\<rparr>)))"

definition parse_block ::
  "(string \<Rightarrow> real option) \<Rightarrow> (string \<Rightarrow> real option) \<Rightarrow> string \<Rightarrow> Edge_Block option" where
  "parse_block stold stof line =
     (let (sx_text, rest1) = split_at CHR '','' line;
          (ex_text, rest2) = split_at CHR '','' rest1;
          (sy_text, rest3) = split_at CHR '','' rest2;
          (ey_text, probability) = split_at CHR '','' rest3
      in if sx_text = [] \<or> ex_text = [] \<or> sy_text = [] \<or> ey_text = [] \<or> probability = []
         then None
         else
           (case (stold sx_text, stold ex_text, stold sy_text, stold ey_text) of
              (Some sx, Some ex, Some sy, Some ey) \<Rightarrow>
                (case stof probability of
                   None \<Rightarrow> None
                 | Some p \<Rightarrow>
                     Some \<lparr>startX = sx, endX = ex, startY = sy, endY = ey,
                           expression_probability = p\<rparr>)
            | _ \<Rightarrow> None))"

definition read_nodes :: "(string \<Rightarrow> real option) \<Rightarrow> reader_state \<Rightarrow> string \<Rightarrow> reader_state" where
  "read_nodes stold st line =
     (case parse_node stold line of
        None \<Rightarrow> st
      | Some r \<Rightarrow>
          st\<lparr>result := (result st)\<lparr>nodes := nodes (result st) @ [r]\<rparr>, has_node := True\<rparr>)"

definition read_edges ::
  "(string \<Rightarrow> real option) \<Rightarrow> (string \<Rightarrow> real option) \<Rightarrow> reader_state \<Rightarrow> string \<Rightarrow>
   reader_state" where
  "read_edges stold stof st line =
     (case parse_block stold stof line of
        None \<Rightarrow> st
      | Some b \<Rightarrow> st\<lparr>current_blocks := current_blocks st @ [b]\<rparr>)"

text \<open>The body of the \<^verbatim>\<open>while (std::getline(file, line))\<close> loop.\<close>

definition dispatch ::
  "(string \<Rightarrow> real option) \<Rightarrow> (string \<Rightarrow> real option) \<Rightarrow> reader_state \<Rightarrow> string \<Rightarrow>
   error + reader_state" where
  "dispatch stold stof st line =
     (if starts_with ''#'' line then read_directive st line
      else
        (case mode st of
           NONE \<Rightarrow> Inl (Unexpected_Line line)
         | META \<Rightarrow> Inr (read_meta st line)
         | NODES \<Rightarrow> Inr (read_nodes stold st line)
         | EDGES \<Rightarrow> Inr (read_edges stold stof st line)))"

definition read_line ::
  "(string \<Rightarrow> real option) \<Rightarrow> (string \<Rightarrow> real option) \<Rightarrow> reader_state \<Rightarrow> string \<Rightarrow>
   error + reader_state" where
  "read_line stold stof st raw =
     (let line = strip_cr raw in
      if line = [] then Inr st else dispatch stold stof st line)"

fun read_lines ::
  "(string \<Rightarrow> real option) \<Rightarrow> (string \<Rightarrow> real option) \<Rightarrow> reader_state \<Rightarrow> string list \<Rightarrow>
   error + reader_state" where
  "read_lines stold stof st [] = Inr st"
| "read_lines stold stof st (l # ls) =
     (case read_line stold stof st l of
        Inl e \<Rightarrow> Inl e
      | Inr st' \<Rightarrow> read_lines stold stof st' ls)"

definition read_m1_file ::
  "(string \<Rightarrow> real option) \<Rightarrow> (string \<Rightarrow> real option) \<Rightarrow> string \<Rightarrow> error + m1_data" where
  "read_m1_file stold stof content =
     (case read_lines stold stof initial_state (getlines content) of
        Inl e \<Rightarrow> Inl e
      | Inr st \<Rightarrow>
          (let st' = save_blocks st in
           if \<not> has_meta st' then Inl Missing_Meta
           else if \<not> has_node st' then Inl Missing_Nodes
           else if \<not> has_edges st' then Inl Missing_Edges
           else Inr (result st')))"

text \<open>
  The files are a map from names to contents; a name without a content is a file that
  cannot be opened.  \<^const>\<open>read_m1_file\<close> reads the content, \<open>open_m1_file\<close> is the
  function of the source from its first line on.
\<close>

definition open_m1_file ::
  "(string \<Rightarrow> string option) \<Rightarrow> (string \<Rightarrow> real option) \<Rightarrow> (string \<Rightarrow> real option) \<Rightarrow> string \<Rightarrow>
   error + m1_data" where
  "open_m1_file files stold stof file_name =
     (case files file_name of
        None \<Rightarrow> Inl (Cannot_Open file_name)
      | Some content \<Rightarrow> read_m1_file stold stof content)"

text \<open>
  \<^verbatim>\<open>write_m1_file\<close>, as the text it writes.  \<^verbatim>\<open>std::to_string\<close> of a \<^verbatim>\<open>long double\<close> and
  of a \<^verbatim>\<open>float\<close> are parameters.
\<close>

fun write_meta :: "(string \<times> string) list \<Rightarrow> error + string" where
  "write_meta [] = Inr []"
| "write_meta ((key, val) # rest) =
     (if CHR ''='' \<in> set key then Inl (Equals_In_Key key)
      else if CHR 0x0A \<in> set key \<or> CHR 0x0A \<in> set val then Inl (Newline_In_Meta key)
      else bindE (write_meta rest) (\<lambda>text. Inr (key @ ''='' @ val @ [CHR 0x0A] @ text)))"

fun write_nodes :: "(real \<Rightarrow> string) \<Rightarrow> Node_Record list \<Rightarrow> error + string" where
  "write_nodes to_string [] = Inr []"
| "write_nodes to_string (r # rest) =
     (if CHR 0x0A \<in> set (node_type r) then Inl (Newline_In_Node_Type (node_type r))
      else bindE (write_nodes to_string rest) (\<lambda>text.
             Inr (to_string (startID r) @ '','' @ to_string (endID r) @ '','' @ node_type r
                  @ [CHR 0x0A] @ text)))"

definition write_block :: "(real \<Rightarrow> string) \<Rightarrow> (real \<Rightarrow> string) \<Rightarrow> Edge_Block \<Rightarrow> string" where
  "write_block to_string to_string_f b =
     to_string (startX b) @ '','' @ to_string (endX b) @ '','' @ to_string (startY b) @ '',''
     @ to_string (endY b) @ '','' @ to_string_f (expression_probability b) @ [CHR 0x0A]"

fun write_edges ::
  "(real \<Rightarrow> string) \<Rightarrow> (real \<Rightarrow> string) \<Rightarrow> Edge_Record list \<Rightarrow> error + string" where
  "write_edges to_string to_string_f [] = Inr []"
| "write_edges to_string to_string_f (r # rest) =
     (if CHR 0x0A \<in> set (edge_type r) then Inl (Newline_In_Edge_Type (edge_type r))
      else bindE (write_edges to_string to_string_f rest) (\<lambda>text.
             Inr (''# EDGES='' @ edge_type r @ [CHR 0x0A]
                  @ concat (map (write_block to_string to_string_f) (blocks r))
                  @ [CHR 0x0A] @ text)))"

definition write_m1_file ::
  "(real \<Rightarrow> string) \<Rightarrow> (real \<Rightarrow> string) \<Rightarrow> m1_data \<Rightarrow> error + string" where
  "write_m1_file to_string to_string_f data =
     bindE (write_meta (map_items (meta_values (meta data)))) (\<lambda>meta_text.
     bindE (write_nodes to_string (nodes data)) (\<lambda>nodes_text.
     bindE (write_edges to_string to_string_f (edges data)) (\<lambda>edges_text.
       Inr (''# META'' @ [CHR 0x0A] @ ''NAME='' @ meta_name (meta data) @ [CHR 0x0A]
            @ meta_text @ [CHR 0x0A]
            @ ''# NODES'' @ [CHR 0x0A] @ nodes_text @ [CHR 0x0A]
            @ edges_text))))"

subsection \<open>What a file holds\<close>

text \<open>
  The lines of a file that count are the non-empty ones, after a trailing carriage
  return is taken off.  A line that starts with \<^verbatim>\<open>#\<close> is a directive; the other lines are
  data lines, each in the section that the last directive before it opened.
\<close>

definition clean :: "string list \<Rightarrow> string list" where
  "clean raws = filter (\<lambda>l. l \<noteq> []) (map strip_cr raws)"

definition known_directive :: "string \<Rightarrow> bool" where
  "known_directive l =
     (starts_with ''# META'' l \<or> starts_with ''# NODES'' l \<or> starts_with ''# EDGES'' l)"

definition directive_mode :: "string \<Rightarrow> ReaderMode" where
  "directive_mode l =
     (if starts_with ''# META'' l then META
      else if starts_with ''# NODES'' l then NODES
      else EDGES)"

fun sections :: "ReaderMode \<Rightarrow> string list \<Rightarrow> (ReaderMode \<times> string) list" where
  "sections m [] = []"
| "sections m (l # ls) =
     (if starts_with ''#'' l then sections (directive_mode l) ls else (m, l) # sections m ls)"

definition section_lines :: "ReaderMode \<Rightarrow> ReaderMode \<Rightarrow> string list \<Rightarrow> string list" where
  "section_lines wanted m ls = map snd (filter (\<lambda>(m', l). m' = wanted) (sections m ls))"

text \<open>
  A file is malformed when a directive is none of the three, or a data line stands in
  no section.
\<close>

definition malformed :: "ReaderMode \<Rightarrow> string list \<Rightarrow> bool" where
  "malformed m ls =
     ((\<exists>l \<in> set ls. starts_with ''#'' l \<and> \<not> known_directive l)
      \<or> section_lines NONE m ls \<noteq> [])"

text \<open>
  The complete rows of the sections: a META row has a key and a value, a NODES row and
  an EDGES row have all their fields, and numbers that the library can read.
\<close>

definition parsed_meta :: "ReaderMode \<Rightarrow> string list \<Rightarrow> (string \<times> string) list" where
  "parsed_meta m ls =
     filter (\<lambda>(key, val). key \<noteq> [] \<and> val \<noteq> []) (map (split_at CHR ''='') (section_lines META m ls))"

definition parsed_names :: "ReaderMode \<Rightarrow> string list \<Rightarrow> string list" where
  "parsed_names m ls = map snd (filter (\<lambda>(key, val). key = ''NAME'') (parsed_meta m ls))"

definition parsed_values :: "ReaderMode \<Rightarrow> string list \<Rightarrow> (string \<times> string) list" where
  "parsed_values m ls = filter (\<lambda>(key, val). key \<noteq> ''NAME'') (parsed_meta m ls)"

definition parsed_nodes ::
  "(string \<Rightarrow> real option) \<Rightarrow> ReaderMode \<Rightarrow> string list \<Rightarrow> Node_Record list" where
  "parsed_nodes stold m ls = List.map_filter (parse_node stold) (section_lines NODES m ls)"

definition parsed_blocks ::
  "(string \<Rightarrow> real option) \<Rightarrow> (string \<Rightarrow> real option) \<Rightarrow> ReaderMode \<Rightarrow> string list \<Rightarrow>
   Edge_Block list" where
  "parsed_blocks stold stof m ls =
     List.map_filter (parse_block stold stof) (section_lines EDGES m ls)"

text \<open>
  The edge records of a file.  Every \<^verbatim>\<open># EDGES\<close> directive opens a section of its own,
  which holds the data lines up to the next directive.  Its edge type is what follows
  the first \<^verbatim>\<open>=\<close> of the directive, or the whole directive when there is none.  A
  section gives one record with its valid rows, and none when it has no valid row.
\<close>

definition heading_type :: "string \<Rightarrow> string" where
  "heading_type l = (if CHR ''='' \<in> set l then snd (split_at CHR ''='' l) else l)"

fun edge_sections :: "string list \<Rightarrow> (string \<times> string list) list" where
  "edge_sections [] = []"
| "edge_sections (l # ls) =
     (if starts_with ''# EDGES'' l
      then (heading_type l, takeWhile (\<lambda>x. \<not> starts_with ''#'' x) ls) # edge_sections ls
      else edge_sections ls)"

definition section_record ::
  "(string \<Rightarrow> real option) \<Rightarrow> (string \<Rightarrow> real option) \<Rightarrow> string \<Rightarrow> Edge_Block list \<Rightarrow>
   string list \<Rightarrow> Edge_Record list" where
  "section_record stold stof t bs rows =
     (if bs @ List.map_filter (parse_block stold stof) rows = [] then []
      else [\<lparr>edge_type = t, blocks = bs @ List.map_filter (parse_block stold stof) rows\<rparr>])"

definition parsed_records ::
  "(string \<Rightarrow> real option) \<Rightarrow> (string \<Rightarrow> real option) \<Rightarrow> string list \<Rightarrow> Edge_Record list" where
  "parsed_records stold stof ls =
     concat (map (\<lambda>(t, rows). section_record stold stof t [] rows) (edge_sections ls))"

definition file_lines :: "string \<Rightarrow> string list" where
  "file_lines content = clean (getlines content)"

text \<open>
  Two views of the reader's state: the blocks read so far, saved or not, and the
  agreement between the saved records and the flag \<^verbatim>\<open>has_edges\<close>.
\<close>

definition all_blocks :: "reader_state \<Rightarrow> Edge_Block list" where
  "all_blocks st = concat (map blocks (edges (result st))) @ current_blocks st"

definition edges_ok :: "reader_state \<Rightarrow> bool" where
  "edges_ok st \<longleftrightarrow>
     (\<forall>r \<in> set (edges (result st)). blocks r \<noteq> []) \<and> (has_edges st \<longleftrightarrow> edges (result st) \<noteq> [])"

text \<open>
  A third view: the record that the reader has open, with the rows that it will still
  get before the next directive.
\<close>

definition open_record ::
  "(string \<Rightarrow> real option) \<Rightarrow> (string \<Rightarrow> real option) \<Rightarrow> reader_state \<Rightarrow> string list \<Rightarrow>
   Edge_Record list" where
  "open_record stold stof st ls =
     section_record stold stof (current_edge_type st) (current_blocks st)
       (if mode st = EDGES then takeWhile (\<lambda>x. \<not> starts_with ''#'' x) ls else [])"

subsection \<open>The lines of a written file, and the models that survive the format\<close>

definition unlines :: "string list \<Rightarrow> string" where
  "unlines ls = concat (map (\<lambda>l. l @ [CHR 0x0A]) ls)"

definition entry_line :: "string \<times> string \<Rightarrow> string" where
  "entry_line e = fst e @ ''='' @ snd e"

definition node_line :: "(real \<Rightarrow> string) \<Rightarrow> Node_Record \<Rightarrow> string" where
  "node_line to_string r =
     to_string (startID r) @ '','' @ to_string (endID r) @ '','' @ node_type r"

definition block_line :: "(real \<Rightarrow> string) \<Rightarrow> (real \<Rightarrow> string) \<Rightarrow> Edge_Block \<Rightarrow> string" where
  "block_line to_string to_string_f b =
     to_string (startX b) @ '','' @ to_string (endX b) @ '','' @ to_string (startY b) @ '',''
     @ to_string (endY b) @ '','' @ to_string_f (expression_probability b)"

definition record_lines ::
  "(real \<Rightarrow> string) \<Rightarrow> (real \<Rightarrow> string) \<Rightarrow> Edge_Record \<Rightarrow> string list" where
  "record_lines to_string to_string_f r =
     (''# EDGES='' @ edge_type r) # map (block_line to_string to_string_f) (blocks r) @ [[]]"

definition model_lines :: "(real \<Rightarrow> string) \<Rightarrow> (real \<Rightarrow> string) \<Rightarrow> m1_data \<Rightarrow> string list" where
  "model_lines to_string to_string_f data =
     [''# META'', ''NAME='' @ meta_name (meta data)]
     @ map entry_line (map_items (meta_values (meta data))) @ [[]]
     @ [''# NODES''] @ map (node_line to_string) (nodes data) @ [[]]
     @ concat (map (record_lines to_string to_string_f) (edges data))"

text \<open>
  A text can end a line when it has no newline and no carriage return at its end.  A
  number survives when the library reads back, as the same number, what it printed,
  and the print is a field: not empty, without comma and newline, and not a directive.
\<close>

definition line_text :: "string \<Rightarrow> bool" where
  "line_text t = (CHR 0x0A \<notin> set t \<and> (t = [] \<or> last t \<noteq> CHR 0x0D))"

definition number_survives :: "(real \<Rightarrow> string) \<Rightarrow> (string \<Rightarrow> real option) \<Rightarrow> real \<Rightarrow> bool" where
  "number_survives to_string stold x =
     (to_string x \<noteq> [] \<and> CHR '','' \<notin> set (to_string x) \<and> CHR 0x0A \<notin> set (to_string x)
      \<and> hd (to_string x) \<noteq> CHR ''#'' \<and> stold (to_string x) = Some x)"

definition probability_survives ::
  "(real \<Rightarrow> string) \<Rightarrow> (string \<Rightarrow> real option) \<Rightarrow> real \<Rightarrow> bool" where
  "probability_survives to_string_f stof p =
     (to_string_f p \<noteq> [] \<and> line_text (to_string_f p) \<and> stof (to_string_f p) = Some p)"

definition entry_survives :: "string \<times> string \<Rightarrow> bool" where
  "entry_survives e =
     (fst e \<noteq> [] \<and> snd e \<noteq> [] \<and> CHR ''='' \<notin> set (fst e) \<and> CHR 0x0A \<notin> set (fst e)
      \<and> hd (fst e) \<noteq> CHR ''#'' \<and> fst e \<noteq> ''NAME'' \<and> line_text (snd e))"

definition node_survives ::
  "(real \<Rightarrow> string) \<Rightarrow> (string \<Rightarrow> real option) \<Rightarrow> Node_Record \<Rightarrow> bool" where
  "node_survives to_string stold r =
     (number_survives to_string stold (startID r) \<and> number_survives to_string stold (endID r)
      \<and> node_type r \<noteq> [] \<and> line_text (node_type r))"

definition block_survives ::
  "(real \<Rightarrow> string) \<Rightarrow> (real \<Rightarrow> string) \<Rightarrow> (string \<Rightarrow> real option) \<Rightarrow> (string \<Rightarrow> real option) \<Rightarrow>
   Edge_Block \<Rightarrow> bool" where
  "block_survives to_string to_string_f stold stof b =
     (number_survives to_string stold (startX b) \<and> number_survives to_string stold (endX b)
      \<and> number_survives to_string stold (startY b) \<and> number_survives to_string stold (endY b)
      \<and> probability_survives to_string_f stof (expression_probability b))"

definition record_survives ::
  "(real \<Rightarrow> string) \<Rightarrow> (real \<Rightarrow> string) \<Rightarrow> (string \<Rightarrow> real option) \<Rightarrow> (string \<Rightarrow> real option) \<Rightarrow>
   Edge_Record \<Rightarrow> bool" where
  "record_survives to_string to_string_f stold stof r =
     (line_text (edge_type r) \<and> blocks r \<noteq> []
      \<and> list_all (block_survives to_string to_string_f stold stof) (blocks r))"

definition model_survives ::
  "(real \<Rightarrow> string) \<Rightarrow> (real \<Rightarrow> string) \<Rightarrow> (string \<Rightarrow> real option) \<Rightarrow> (string \<Rightarrow> real option) \<Rightarrow>
   m1_data \<Rightarrow> bool" where
  "model_survives to_string to_string_f stold stof data =
     (meta_name (meta data) \<noteq> [] \<and> line_text (meta_name (meta data))
      \<and> list_all entry_survives (map_items (meta_values (meta data)))
      \<and> nodes data \<noteq> [] \<and> list_all (node_survives to_string stold) (nodes data)
      \<and> edges data \<noteq> []
      \<and> list_all (record_survives to_string to_string_f stold stof) (edges data))"

section \<open>The model fitter (GenericGraphReader.cpp)\<close>

text \<open>
  A \<^verbatim>\<open>std::unordered_map\<close> or \<^verbatim>\<open>std::unordered_set\<close> is an association list, or a list,
  with distinct keys, in the order in which a range-for visits it.  The C++ standard
  leaves that order open, and it differs between the libraries; here a new key goes to
  the end.  What is proved below about the blocks of the compiled model is proved for
  every list of containers, so for every order; where the order matters, two orders
  are compared.  \<^verbatim>\<open>m[k]\<close> on a missing key inserts the default value.  \<^verbatim>\<open>Amount\<close> and
  \<^verbatim>\<open>Degree\<close> are natural numbers here: the counters count nodes and edges that were
  read, far fewer than \<open>2 ^ 64\<close>.
\<close>

type_synonym ('k, 'v) unordered_map = "('k \<times> 'v) list"

definition umap_get :: "'v \<Rightarrow> ('k, 'v) unordered_map \<Rightarrow> 'k \<Rightarrow> 'v" where
  "umap_get dflt m k = (case map_of m k of None \<Rightarrow> dflt | Some v \<Rightarrow> v)"

definition umap_update :: "'v \<Rightarrow> ('v \<Rightarrow> 'v) \<Rightarrow> 'k \<Rightarrow> ('k, 'v) unordered_map \<Rightarrow> ('k, 'v) unordered_map" where
  "umap_update dflt f k m =
     (if k \<in> fst ` set m then map (\<lambda>(k', v). if k' = k then (k', f v) else (k', v)) m
      else m @ [(k, f dflt)])"


definition map_get :: "'v \<Rightarrow> ('k, 'v) std_map \<Rightarrow> 'k \<Rightarrow> 'v" where
  "map_get dflt m k = (case map_of m k of None \<Rightarrow> dflt | Some v \<Rightarrow> v)"


record Edge_Type_Container =
  sum_of_in_degrees :: nat
  sum_of_out_degrees :: nat
  number_of_nodes_with_in_degree :: nat
  number_of_nodes_with_out_degree :: nat
  in_degrees :: "(nat \<times> nat) list"
  out_degrees :: "(nat \<times> nat) list"

definition empty_edge_container :: Edge_Type_Container where
  "empty_edge_container =
     \<lparr>sum_of_in_degrees = 0, sum_of_out_degrees = 0, number_of_nodes_with_in_degree = 0,
      number_of_nodes_with_out_degree = 0, in_degrees = [], out_degrees = []\<rparr>"

text \<open>
  The fields \<^verbatim>\<open>node_count\<close> and \<^verbatim>\<open>node_type\<close> of \<^verbatim>\<open>Node_Type_Container\<close> are \<open>nt_count\<close> and
  \<open>nt_type\<close> here, and the members \<^verbatim>\<open>node_count\<close>, \<^verbatim>\<open>in_degrees\<close> and \<^verbatim>\<open>out_degrees\<close> of
  \<^verbatim>\<open>GenericGraphReader\<close> are \<open>total_node_count\<close>, \<open>node_in_degrees\<close> and
  \<open>node_out_degrees\<close>: a field name belongs to one record.
\<close>

record Node_Type_Container =
  nt_count :: nat
  nt_type :: string
  edge_data :: "(string, Edge_Type_Container) unordered_map"

definition empty_node_container :: Node_Type_Container where
  "empty_node_container = \<lparr>nt_count = 0, nt_type = [], edge_data = []\<rparr>"

definition has_edge_type :: "Node_Type_Container \<Rightarrow> string \<Rightarrow> bool" where
  "has_edge_type c t = (t \<in> fst ` set (edge_data c))"

record GenericGraphReader =
  total_node_count :: nat
  edge_count :: "(string, nat) unordered_map"
  sbm_matrix :: "(string, (string \<times> string, nat) std_map) unordered_map"
  node_types :: "(string, nat) unordered_map"
  edge_colors :: "string list"
  nodes_to_types :: "(string, string) unordered_map"
  node_in_degrees :: "(string, (string, nat) std_map) unordered_map"
  node_out_degrees :: "(string, (string, nat) std_map) unordered_map"

definition new_reader :: GenericGraphReader where
  "new_reader =
     \<lparr>total_node_count = 0, edge_count = [], sbm_matrix = [], node_types = [],
      edge_colors = [], nodes_to_types = [], node_in_degrees = [], node_out_degrees = []\<rparr>"

definition readNode :: "string \<Rightarrow> string \<Rightarrow> GenericGraphReader \<Rightarrow> GenericGraphReader" where
  "readNode node n_type g =
     g\<lparr>total_node_count := total_node_count g + 1,
       node_types := umap_update 0 (\<lambda>c. c + 1) n_type (node_types g),
       nodes_to_types := umap_update [] (\<lambda>t. n_type) node (nodes_to_types g)\<rparr>"


subsection \<open>process: the containers\<close>

text \<open>The containers of the node types, each with an empty container per edge type.\<close>

definition setup_containers ::
  "GenericGraphReader \<Rightarrow> (string, Node_Type_Container) unordered_map" where
  "setup_containers g =
     fold (\<lambda>(n_type, cnt) nt_containers.
             umap_update empty_node_container
               (\<lambda>c. \<lparr>nt_count = cnt, nt_type = n_type,
                      edge_data = fold (\<lambda>e_type data.
                                          umap_update empty_edge_container
                                            (\<lambda>c. empty_edge_container) e_type data)
                                    (edge_colors g) []\<rparr>)
               n_type nt_containers)
       (node_types g) []"

text \<open>
  The degree distributions: for every node type and edge type, how many nodes have
  which degree.  The degrees of one edge type are visited in the order of the node
  names (a \<^verbatim>\<open>std::map\<close>).  The lookups \<^verbatim>\<open>nodes_to_types[node]\<close> and
  \<^verbatim>\<open>sbm_matrix[e_type][...]\<close> of \<^verbatim>\<open>process\<close> are reads with the default value here: the
  entries they add to the reader are not read again.
\<close>

type_synonym distribution =
  "(string, (string, (nat, nat) unordered_map) unordered_map) unordered_map"

definition count_degree :: "string \<Rightarrow> string \<Rightarrow> nat \<Rightarrow> distribution \<Rightarrow> distribution" where
  "count_degree n_type e_type deg d =
     umap_update [] (umap_update [] (umap_update 0 (\<lambda>c. c + 1) deg) e_type) n_type d"

definition build_distribution ::
  "(string, string) unordered_map \<Rightarrow> (string, (string, nat) std_map) unordered_map \<Rightarrow> distribution" where
  "build_distribution types degrees =
     fold (\<lambda>(e_type, of_nodes) d.
             fold (\<lambda>(node, deg) d. count_degree (umap_get [] types node) e_type deg d)
               (map_items of_nodes) d)
       degrees []"

definition add_in_degree :: "nat \<Rightarrow> nat \<Rightarrow> Edge_Type_Container \<Rightarrow> Edge_Type_Container" where
  "add_in_degree deg amount c =
     c\<lparr>in_degrees := in_degrees c @ [(deg, amount)],
       number_of_nodes_with_in_degree := number_of_nodes_with_in_degree c + amount,
       sum_of_in_degrees := sum_of_in_degrees c + deg * amount\<rparr>"

definition add_out_degree :: "nat \<Rightarrow> nat \<Rightarrow> Edge_Type_Container \<Rightarrow> Edge_Type_Container" where
  "add_out_degree deg amount c =
     c\<lparr>out_degrees := out_degrees c @ [(deg, amount)],
       number_of_nodes_with_out_degree := number_of_nodes_with_out_degree c + amount,
       sum_of_out_degrees := sum_of_out_degrees c + deg * amount\<rparr>"

definition read_distribution ::
  "(nat \<Rightarrow> nat \<Rightarrow> Edge_Type_Container \<Rightarrow> Edge_Type_Container) \<Rightarrow> distribution \<Rightarrow>
   (string, Node_Type_Container) unordered_map \<Rightarrow> (string, Node_Type_Container) unordered_map" where
  "read_distribution add d nt_containers =
     fold (\<lambda>(n_type, e_cont) cs.
             fold (\<lambda>(e_type, of_degrees) cs.
                     fold (\<lambda>(deg, amount) cs.
                             umap_update empty_node_container
                               (\<lambda>c. c\<lparr>edge_data :=
                                         umap_update empty_edge_container (add deg amount) e_type
                                           (edge_data c)\<rparr>)
                               n_type cs)
                       of_degrees cs)
               e_cont cs)
       d nt_containers"

text \<open>
  Padding with the nodes of degree zero, sorting and shuffling.  \<^verbatim>\<open>std::shuffle\<close> and its
  generator are parameters: \<open>shuffle\<close> takes the state of the generator and a list, and
  returns the shuffled list and the next state.
\<close>

definition pad_and_shuffle ::
  "('g \<Rightarrow> (nat \<times> nat) list \<Rightarrow> (nat \<times> nat) list \<times> 'g) \<Rightarrow> nat \<Rightarrow> Edge_Type_Container \<Rightarrow> 'g \<Rightarrow>
   Edge_Type_Container \<times> 'g" where
  "pad_and_shuffle shuffle cnt c random_source =
     (let ins = (if number_of_nodes_with_in_degree c < cnt
                 then in_degrees c @ [(0, cnt - number_of_nodes_with_in_degree c)]
                 else in_degrees c);
          outs = (if number_of_nodes_with_out_degree c < cnt
                  then out_degrees c @ [(0, cnt - number_of_nodes_with_out_degree c)]
                  else out_degrees c);
          (ins', random_source') = shuffle random_source (sort ins);
          (outs', random_source'') = shuffle random_source' (sort outs)
      in (c\<lparr>in_degrees := ins', out_degrees := outs'\<rparr>, random_source''))"

fun shuffle_edge_data ::
  "('g \<Rightarrow> (nat \<times> nat) list \<Rightarrow> (nat \<times> nat) list \<times> 'g) \<Rightarrow> nat \<Rightarrow>
   (string, Edge_Type_Container) unordered_map \<Rightarrow> 'g \<Rightarrow>
   (string, Edge_Type_Container) unordered_map \<times> 'g" where
  "shuffle_edge_data shuffle cnt [] random_source = ([], random_source)"
| "shuffle_edge_data shuffle cnt ((e_type, c) # rest) random_source =
     (let (c', random_source') = pad_and_shuffle shuffle cnt c random_source;
          (rest', random_source'') = shuffle_edge_data shuffle cnt rest random_source'
      in ((e_type, c') # rest', random_source''))"

fun shuffle_containers ::
  "('g \<Rightarrow> (nat \<times> nat) list \<Rightarrow> (nat \<times> nat) list \<times> 'g) \<Rightarrow>
   (string, Node_Type_Container) unordered_map \<Rightarrow> 'g \<Rightarrow>
   (string, Node_Type_Container) unordered_map \<times> 'g" where
  "shuffle_containers shuffle [] random_source = ([], random_source)"
| "shuffle_containers shuffle ((n_type, c) # rest) random_source =
     (let (data', random_source') = shuffle_edge_data shuffle (nt_count c) (edge_data c) random_source;
          (rest', random_source'') = shuffle_containers shuffle rest random_source'
      in ((n_type, c\<lparr>edge_data := data'\<rparr>) # rest', random_source''))"

definition work_container ::
  "(u64 \<Rightarrow> 'g) \<Rightarrow> ('g \<Rightarrow> (nat \<times> nat) list \<Rightarrow> (nat \<times> nat) list \<times> 'g) \<Rightarrow> GenericGraphReader \<Rightarrow>
   u64 \<Rightarrow> Node_Type_Container list" where
  "work_container mt19937 shuffle g seed =
     (let in_distribution = build_distribution (nodes_to_types g) (node_in_degrees g);
          out_distribution = build_distribution (nodes_to_types g) (node_out_degrees g);
          nt_containers =
            read_distribution add_out_degree out_distribution
              (read_distribution add_in_degree in_distribution (setup_containers g))
      in map snd (fst (shuffle_containers shuffle nt_containers (mt19937 seed))))"

subsection \<open>process: the node records and the blocks\<close>

text \<open>
  The corners of the node records and of the blocks are counters converted to
  \<^verbatim>\<open>long double\<close>.  The conversion is exact: the \<^verbatim>\<open>long double\<close> of the x86 holds every
  64-bit integer.
\<close>

fun parse_nodes :: "nat \<Rightarrow> Node_Type_Container list \<Rightarrow> Node_Record list" where
  "parse_nodes current_id [] = []"
| "parse_nodes current_id (container # rest) =
     \<lparr>startID = real current_id, endID = real (current_id + nt_count container),
      node_type = nt_type container\<rparr>
     # parse_nodes (current_id + nt_count container) rest"

text \<open>
  The probability of a block, computed in \<^verbatim>\<open>float\<close>: the five counters are converted,
  and the two quotients and the two products are rounded, one by one.
\<close>

definition ddcsbm ::
  "(real \<Rightarrow> real) \<Rightarrow> nat \<Rightarrow> nat \<Rightarrow> nat \<Rightarrow> nat \<Rightarrow> nat \<Rightarrow> Probability" where
  "ddcsbm to_float edges_between_types sum_of_out sum_of_in deg_x deg_y =
     (if sum_of_out > 0 \<and> sum_of_in > 0
      then to_float
             (to_float
                (to_float (real edges_between_types)
                 * to_float (to_float (real deg_x) / to_float (real sum_of_out)))
              * to_float (to_float (real deg_y) / to_float (real sum_of_in)))
      else 0)"

text \<open>
  The four loops that make the blocks of one edge type.  Each returns its blocks and the
  number of blocks whose probability is above 1.
\<close>

fun blocks_of_row ::
  "(real \<Rightarrow> real) \<Rightarrow> nat \<Rightarrow> nat \<Rightarrow> nat \<Rightarrow> nat \<times> nat \<Rightarrow> nat \<Rightarrow> nat \<Rightarrow> (nat \<times> nat) list \<Rightarrow> Edge_Block list \<times> nat" where
  "blocks_of_row to_float edges_between_types sum_of_out sum_of_in dx current_id_x current_id_y [] = ([], 0)"
| "blocks_of_row to_float edges_between_types sum_of_out sum_of_in dx current_id_x current_id_y
     ((deg_y, amount_y) # rest) =
     (let prob = ddcsbm to_float edges_between_types sum_of_out sum_of_in (fst dx) deg_y;
          (bs, failed) =
            blocks_of_row to_float edges_between_types sum_of_out sum_of_in dx current_id_x
              (current_id_y + amount_y) rest
      in ((if prob > 0
           then [\<lparr>startX = real current_id_x, endX = real (current_id_x + snd dx),
                   startY = real current_id_y, endY = real (current_id_y + amount_y),
                   expression_probability = prob\<rparr>]
           else []) @ bs,
          (if prob > 1 then 1 else 0) + failed))"

fun blocks_of_pair ::
  "(real \<Rightarrow> real) \<Rightarrow> nat \<Rightarrow> nat \<Rightarrow> nat \<Rightarrow> nat \<Rightarrow> nat \<Rightarrow> (nat \<times> nat) list \<Rightarrow> (nat \<times> nat) list \<Rightarrow>
   Edge_Block list \<times> nat" where
  "blocks_of_pair to_float edges_between_types sum_of_out sum_of_in current_id_x outer_id_y [] ins = ([], 0)"
| "blocks_of_pair to_float edges_between_types sum_of_out sum_of_in current_id_x outer_id_y
     ((deg_x, amount_x) # rest) ins =
     (let (bs1, failed1) =
            blocks_of_row to_float edges_between_types sum_of_out sum_of_in (deg_x, amount_x)
              current_id_x outer_id_y ins;
          (bs2, failed2) =
            blocks_of_pair to_float edges_between_types sum_of_out sum_of_in (current_id_x + amount_x)
              outer_id_y rest ins
      in (bs1 @ bs2, failed1 + failed2))"

fun blocks_of_source ::
  "(real \<Rightarrow> real) \<Rightarrow> ((string \<times> string, nat) std_map) \<Rightarrow> string \<Rightarrow> Node_Type_Container \<Rightarrow> nat \<Rightarrow> nat \<Rightarrow>
   Node_Type_Container list \<Rightarrow> Edge_Block list \<times> nat" where
  "blocks_of_source to_float matrix e_type container_x outer_id_x outer_id_y [] = ([], 0)"
| "blocks_of_source to_float matrix e_type container_x outer_id_x outer_id_y (container_y # rest) =
     (if \<not> has_edge_type container_y e_type
         \<or> number_of_nodes_with_in_degree
             (umap_get empty_edge_container (edge_data container_y) e_type) = 0
      then blocks_of_source to_float matrix e_type container_x outer_id_x
             (outer_id_y + nt_count container_y) rest
      else
        (let x_data = umap_get empty_edge_container (edge_data container_x) e_type;
             y_data = umap_get empty_edge_container (edge_data container_y) e_type;
             edges_between_types = map_get 0 matrix (nt_type container_x, nt_type container_y);
             (bs1, failed1) =
               blocks_of_pair to_float edges_between_types (sum_of_out_degrees x_data)
                 (sum_of_in_degrees y_data) outer_id_x outer_id_y (out_degrees x_data)
                 (in_degrees y_data);
             (bs2, failed2) =
               blocks_of_source to_float matrix e_type container_x outer_id_x
                 (outer_id_y + nt_count container_y) rest
         in (bs1 @ bs2, failed1 + failed2)))"

fun blocks_of_type ::
  "(real \<Rightarrow> real) \<Rightarrow> ((string \<times> string, nat) std_map) \<Rightarrow> string \<Rightarrow> Node_Type_Container list \<Rightarrow> nat \<Rightarrow>
   Node_Type_Container list \<Rightarrow> Edge_Block list \<times> nat" where
  "blocks_of_type to_float matrix e_type work outer_id_x [] = ([], 0)"
| "blocks_of_type to_float matrix e_type work outer_id_x (container_x # rest) =
     (if \<not> has_edge_type container_x e_type
         \<or> number_of_nodes_with_out_degree
             (umap_get empty_edge_container (edge_data container_x) e_type) = 0
      then blocks_of_type to_float matrix e_type work (outer_id_x + nt_count container_x) rest
      else
        (let (bs1, failed1) = blocks_of_source to_float matrix e_type container_x outer_id_x 0 work;
             (bs2, failed2) =
               blocks_of_type to_float matrix e_type work (outer_id_x + nt_count container_x) rest
         in (bs1 @ bs2, failed1 + failed2)))"

text \<open>
  \<^verbatim>\<open>std::sort\<close> with the \<^verbatim>\<open>operator<\<close> of the records.  It leaves the order of records
  with equal keys open; \<^const>\<open>sort_key\<close> keeps them in their order.
\<close>

definition parse_edges ::
  "(real \<Rightarrow> real) \<Rightarrow> GenericGraphReader \<Rightarrow> Node_Type_Container list \<Rightarrow> (Edge_Record \<times> nat) list" where
  "parse_edges to_float g work =
     map (\<lambda>e_type.
            let (bs, failed) =
                  blocks_of_type to_float (umap_get [] (sbm_matrix g) e_type) e_type work 0 work
            in (\<lparr>edge_type = e_type, blocks = sort_key (\<lambda>b. (startX b, startY b)) bs\<rparr>, failed))
       (edge_colors g)"

definition process_meta :: "(string, string) std_map \<Rightarrow> Meta_Record" where
  "process_meta meta_data =
     fold (\<lambda>(k, v) m.
             if k = ''NAME'' then m\<lparr>meta_name := v\<rparr>
             else m\<lparr>meta_values := map_set k v (meta_values m)\<rparr>)
       (map_items meta_data)
       \<lparr>meta_name = ''Unnamed graph model'', meta_values = map_set ''SCALE'' ''1.0'' []\<rparr>"

text \<open>
  \<^verbatim>\<open>process\<close> returns the model; the second component is the counter
  \<^verbatim>\<open>failed_ddcsbm_probabilities\<close> that it prints.
\<close>

definition process ::
  "(real \<Rightarrow> real) \<Rightarrow> (u64 \<Rightarrow> 'g) \<Rightarrow> ('g \<Rightarrow> (nat \<times> nat) list \<Rightarrow> (nat \<times> nat) list \<times> 'g) \<Rightarrow> GenericGraphReader \<Rightarrow>
   (string, string) std_map \<Rightarrow> u64 \<Rightarrow> m1_data \<times> nat" where
  "process to_float mt19937 shuffle g meta_data seed =
     (let work = work_container mt19937 shuffle g seed;
          records = parse_edges to_float g work
      in (\<lparr>meta = process_meta meta_data,
           nodes = sort_key (\<lambda>n. (startID n, endID n)) (parse_nodes 0 work),
           edges = sort_key edge_type (map fst records)\<rparr>,
          sum_list (map snd records)))"

subsection \<open>The blocks of an edge type, cell by cell\<close>













text \<open>
  Two states of the reader hold the same observations when their containers hold the
  same entries, in whatever order they are visited.
\<close>

definition contents :: "('k, ('a, 'b) std_map) unordered_map \<Rightarrow> 'k \<Rightarrow> ('a \<Rightarrow> 'b option) option" where
  "contents m = map_of (map (\<lambda>(k, v). (k, map_of v)) m)"

definition same_observations :: "GenericGraphReader \<Rightarrow> GenericGraphReader \<Rightarrow> bool" where
  "same_observations g h =
     (total_node_count g = total_node_count h
      \<and> map_of (edge_count g) = map_of (edge_count h)
      \<and> contents (sbm_matrix g) = contents (sbm_matrix h)
      \<and> map_of (node_types g) = map_of (node_types h)
      \<and> set (edge_colors g) = set (edge_colors h)
      \<and> map_of (nodes_to_types g) = map_of (nodes_to_types h)
      \<and> contents (node_in_degrees g) = contents (node_in_degrees h)
      \<and> contents (node_out_degrees g) = contents (node_out_degrees h))"

section \<open>Concrete inputs\<close>

subsection \<open>A small model: one node type, one edge type, one block\<close>

definition tiny_model :: m1_data where
  "tiny_model =
     \<lparr>meta = \<lparr>meta_name = ''tiny'', meta_values = [(''SCALE'', ''1.0'')]\<rparr>,
      nodes = [\<lparr>startID = 0, endID = 3, node_type = ''A''\<rparr>],
      edges = [\<lparr>edge_type = ''E'',
                blocks = [\<lparr>startX = 0, endX = 3, startY = 0, endY = 3,
                           expression_probability = 1 / 3\<rparr>]\<rparr>]\<rparr>"

text \<open>
  A model with one block of probability \<open>p\<close>, for scaling; its scale is written as
  \<^verbatim>\<open>std::to_string\<close> writes it.
\<close>

definition square_model :: "Probability \<Rightarrow> m1_data" where
  "square_model p =
     \<lparr>meta = \<lparr>meta_name = ''square'', meta_values = [(''SCALE'', ''1.000000'')]\<rparr>,
      nodes = [\<lparr>startID = 0, endID = 3, node_type = ''A''\<rparr>],
      edges = [\<lparr>edge_type = ''E'',
                blocks = [\<lparr>startX = 0, endX = 3, startY = 0, endY = 3,
                           expression_probability = p\<rparr>]\<rparr>]\<rparr>"

subsection \<open>Inputs of the sampler\<close>

text \<open>
  A generator for experiments.  With the probability 1 the distance is 1 at every
  draw, as in the source, where the logarithm of 0 makes the product 0.  With a
  probability between 0 and 1 the source draws distances from 2 on (the product of two
  negative numbers is rounded up and 1 is added); here they alternate between 2 and 3,
  and the seed chooses which comes first.  The seeding generator counts up from its
  seed.
\<close>

definition toy_jump :: "u64 \<Rightarrow> nat \<Rightarrow> Probability \<Rightarrow> u64" where
  "toy_jump seed n prob = (if prob = 1 then 1 else 2 + (seed + word_of_nat n) mod 2)"

definition toy_mt :: "u64 \<Rightarrow> nat \<Rightarrow> u64" where
  "toy_mt seed k = seed + word_of_nat k"

text \<open>
  \<open>ramp_model n\<close> has one edge type with \<open>n\<close> blocks; block \<open>i\<close> spans the two source
  nodes \<open>i + 1\<close> and \<open>i + 2\<close> and the destination node 1.
\<close>

definition ramp_block :: "nat \<Rightarrow> Edge_Block" where
  "ramp_block i =
     \<lparr>startX = real i, endX = real i + 2, startY = 0, endY = 1,
      expression_probability = 1 / 2\<rparr>"

definition ramp_model :: "nat \<Rightarrow> m1_data" where
  "ramp_model n =
     \<lparr>meta = \<lparr>meta_name = ''ramp'', meta_values = []\<rparr>,
      nodes = [\<lparr>startID = 0, endID = real n + 1, node_type = ''A''\<rparr>],
      edges = [\<lparr>edge_type = ''E'', blocks = map ramp_block [0..<n]\<rparr>]\<rparr>"

text \<open>The integer corners of \<open>ramp_block i\<close>.\<close>

definition ramp_record :: "nat \<Rightarrow> Record" where
  "ramp_record i = (word_of_nat i + 1, word_of_nat i + 2, 1, 1, 1 / 2)"

text \<open>
  \<open>strip_model n\<close> has one edge type with \<open>n\<close> blocks side by side; block \<open>i\<close> spans the
  four source nodes from \<open>4 * i + 1\<close> to \<open>4 * i + 4\<close> and the destination node 1.
\<close>

definition strip_block :: "nat \<Rightarrow> Edge_Block" where
  "strip_block i =
     \<lparr>startX = real (4 * i), endX = real (4 * i) + 4, startY = 0, endY = 1,
      expression_probability = 1 / 2\<rparr>"

definition strip_model :: "nat \<Rightarrow> m1_data" where
  "strip_model n =
     \<lparr>meta = \<lparr>meta_name = ''strip'', meta_values = []\<rparr>,
      nodes = [\<lparr>startID = 0, endID = real (4 * n), node_type = ''A''\<rparr>],
      edges = [\<lparr>edge_type = ''E'', blocks = map strip_block [0..<n]\<rparr>]\<rparr>"

text \<open>The integer corners of \<open>strip_block i\<close>.\<close>

definition strip_record :: "nat \<Rightarrow> Record" where
  "strip_record i = (word_of_nat (4 * i) + 1, word_of_nat (4 * i) + 4, 1, 1, 1 / 2)"

text \<open>A model whose only block has its integer corners out of order (\<open>Xe = 3 < Xs = 6\<close>).\<close>

definition degenerate_model :: m1_data where
  "degenerate_model =
     \<lparr>meta = \<lparr>meta_name = ''degenerate'', meta_values = []\<rparr>,
      nodes = [\<lparr>startID = 0, endID = 5, node_type = ''A''\<rparr>],
      edges = [\<lparr>edge_type = ''E'',
                blocks = [\<lparr>startX = 5, endX = 3, startY = 0, endY = 3,
                           expression_probability = 1 / 2\<rparr>]\<rparr>]\<rparr>"

text \<open>
  A model whose only block lies in the last row of the 64-bit range: the M1 row
  \<^verbatim>\<open>0,1,18446744073709551614,18446744073709551615,1\<close>.
\<close>

definition last_row_model :: m1_data where
  "last_row_model =
     \<lparr>meta = \<lparr>meta_name = ''last row'', meta_values = []\<rparr>,
      nodes = [\<lparr>startID = 0, endID = 1, node_type = ''A''\<rparr>],
      edges = [\<lparr>edge_type = ''E'',
                blocks = [\<lparr>startX = 0, endX = 1,
                           startY = 18446744073709551614, endY = 18446744073709551615,
                           expression_probability = 1\<rparr>]\<rparr>]\<rparr>"

subsection \<open>Inputs of the M1 reader and writer\<close>

text \<open>A number format for experiments: it knows the numbers 0 to 3 and one third.\<close>

definition toy_to_string :: "real \<Rightarrow> string" where
  "toy_to_string x =
     (if x = 0 then ''0.000000'' else if x = 1 then ''1.000000''
      else if x = 2 then ''2.000000'' else if x = 3 then ''3.000000''
      else if x = 1 / 3 then ''0.333333'' else ''nan'')"

definition toy_stold :: "string \<Rightarrow> real option" where
  "toy_stold s =
     (if s = ''0.000000'' then Some 0 else if s = ''1.000000'' then Some 1
      else if s = ''2.000000'' then Some 2 else if s = ''3.000000'' then Some 3
      else if s = ''0.333333'' then Some (1 / 3) else None)"

text \<open>The text of \<^const>\<open>tiny_model\<close> in that format.\<close>

definition toy_file :: string where
  "toy_file = ''# META\<newline>NAME=tiny\<newline>SCALE=1.0\<newline>\<newline># NODES\<newline>0.000000,3.000000,A\<newline>\<newline># EDGES=E\<newline>0.000000,3.000000,0.000000,3.000000,0.333333\<newline>\<newline>''"

text \<open>A directory with this one file.\<close>

definition toy_files :: "string \<Rightarrow> string option" where
  "toy_files file_name = (if file_name = ''tiny.m1'' then Some toy_file else None)"

text \<open>\<^const>\<open>tiny_model\<close> without its name, and the text that the writer makes of it.\<close>

definition unnamed_model :: m1_data where
  "unnamed_model = tiny_model\<lparr>meta := \<lparr>meta_name = [], meta_values = [(''SCALE'', ''1.0'')]\<rparr>\<rparr>"

definition unnamed_file :: string where
  "unnamed_file = ''# META\<newline>NAME=\<newline>SCALE=1.0\<newline>\<newline># NODES\<newline>0.000000,3.000000,A\<newline>\<newline># EDGES=E\<newline>0.000000,3.000000,0.000000,3.000000,0.333333\<newline>\<newline>''"

subsection \<open>Inputs of the fitter\<close>





text \<open>Two node types, read in the one order and in the other.\<close>

definition a_then_b :: GenericGraphReader where
  "a_then_b = readNode ''3'' ''B'' (readNode ''2'' ''B'' (readNode ''1'' ''A'' new_reader))"

definition b_then_a :: GenericGraphReader where
  "b_then_a = readNode ''1'' ''A'' (readNode ''3'' ''B'' (readNode ''2'' ''B'' new_reader))"

section \<open>The map model\<close>

lemma map_of_map_set: "map_of (map_set k v m) = (map_of m)(k \<mapsto> v)"
  by (simp add: map_set_def)

lemma distinct_map_items: "distinct (map fst (map_items m))"
  by (simp add: map_items_def comp_def)

lemma keys_map_items: "fst ` set (map_items m) = fst ` set m"
  by (force simp: map_items_def)

lemma map_of_map_items: "map_of (map_items m) = map_of m"
proof
  fix k
  show "map_of (map_items m) k = map_of m k"
  proof (cases "k \<in> fst ` set m")
    case True
    then have "(k, the (map_of m k)) \<in> set (map_items m)"
      by (auto simp: map_items_def)
    then have "map_of (map_items m) k = Some (the (map_of m k))"
      using distinct_map_items [of m] by simp
    moreover from True obtain v where "map_of m k = Some v"
      by (metis domD dom_map_of_conv_image_fst)
    ultimately show ?thesis by simp
  next
    case False
    then have "map_of m k = None"
      by (simp add: map_of_eq_None_iff)
    moreover from False have "k \<notin> fst ` set (map_items m)"
      by (simp add: keys_map_items)
    then have "map_of (map_items m) k = None"
      by (simp add: map_of_eq_None_iff)
    ultimately show ?thesis by simp
  qed
qed

lemma fold_map_set_rev: "fold (\<lambda>(k, v) m. map_set k v m) xs acc = rev xs @ acc"
  by (induction xs arbitrary: acc) (auto simp: map_set_def)

lemma map_of_rev_distinct: "distinct (map fst xs) \<Longrightarrow> map_of (rev xs) = map_of xs"
proof (induction xs)
  case Nil
  then show ?case by simp
next
  case (Cons x xs)
  obtain k v where x: "x = (k, v)" by (cases x)
  from Cons.prems x have notin: "map_of xs k = None" and d: "distinct (map fst xs)"
    by (auto simp: map_of_eq_None_iff)
  have "map_of (rev (x # xs)) = map_of [(k, v)] ++ map_of xs"
    using Cons.IH d by (simp add: x)
  also have "\<dots> = (map_of xs)(k \<mapsto> v)"
  proof
    fix k'
    show "(map_of [(k, v)] ++ map_of xs) k' = ((map_of xs)(k \<mapsto> v)) k'"
      using notin by (cases "k' = k") (auto simp: map_add_def split: option.splits)
  qed
  finally show ?case by (simp add: x)
qed

lemma map_of_copied:
  "map_of (fold (\<lambda>(k, v) m. map_set k v m) (map_items m) []) = map_of m"
  by (simp add: fold_map_set_rev map_of_rev_distinct distinct_map_items map_of_map_items)

section \<open>Rounding\<close>

text \<open>
  The rounding at a number whose binary exponent is known, and the numbers that a
  format holds exactly: an integer below \<open>2 ^ p\<close> times a power of two.
\<close>

lemma round_even_of_int: "round_even (of_int z) = z"
  by (simp add: round_even_def)

lemma round_to_precision_at:
  assumes "2 powi e \<le> \<bar>x\<bar>" and "\<bar>x\<bar> < 2 powi (e + 1)"
  shows "round_to_precision p x =
           of_int (round_even (x / 2 powi (e - (int p - 1)))) * 2 powi (e - (int p - 1))"
proof -
  have pos: "0 < \<bar>x\<bar>"
    using assms(1) by (smt (verit) zero_less_power_int)
  have "2 powr real_of_int e = 2 powi e" "2 powr real_of_int (e + 1) = 2 powi (e + 1)"
    by (simp_all only: powr_real_of_int' [of 2, simplified])
  then have "\<lfloor>log 2 \<bar>x\<bar>\<rfloor> = e"
    using assms pos floor_log_eq_powr_iff [of "\<bar>x\<bar>" 2 e] by simp
  moreover have "x \<noteq> 0" using pos by simp
  ultimately show ?thesis
    by (simp add: round_to_precision_def Let_def)
qed

lemma round_to_precision_exact:
  assumes x: "x = of_int m * 2 powi k" and m: "\<bar>m\<bar> < 2 ^ p"
  shows "round_to_precision p x = x"
proof (cases "m = 0")
  case True
  then show ?thesis by (simp add: x round_to_precision_def)
next
  case False
  define e where "e = \<lfloor>log 2 \<bar>x\<bar>\<rfloor>"
  have xn: "x \<noteq> 0" using False by (simp add: x)
  have "\<bar>x\<bar> = of_int \<bar>m\<bar> * 2 powi k"
    by (simp add: x abs_mult)
  also have "\<dots> < 2 ^ p * 2 powi k"
  proof -
    have "(of_int \<bar>m\<bar> :: real) < 2 ^ p"
      using m by (metis of_int_less_iff of_int_numeral of_int_power)
    then show ?thesis by (simp add: zero_less_power_int)
  qed
  also have "\<dots> = 2 powi (int p + k)"
    by (simp add: power_int_add)
  finally have lt: "\<bar>x\<bar> < 2 powi (int p + k)" .
  have "log 2 \<bar>x\<bar> < log 2 (2 powi (int p + k))"
    using lt xn by (simp add: zero_less_power_int)
  also have "\<dots> = log 2 (2 powr of_int (int p + k))"
    by (simp only: powr_real_of_int' [of 2, simplified])
  also have "\<dots> = of_int (int p + k)"
    by (rule log_powr_cancel) simp_all
  finally have "e < int p + k"
    unfolding e_def by linarith
  then obtain n where n: "int n = k - (e - (int p - 1))"
    by (metis add_diff_eq diff_ge_0_iff_ge less_iff_succ_less_eq nonneg_int_cases diff_add_cancel add.commute zle_diff1_eq)
  have k: "k = int n + (e - (int p - 1))" using n by simp
  have "x / 2 powi (e - (int p - 1)) = of_int (m * 2 ^ n)"
    by (simp add: x k power_int_add)
  then have r: "round_even (x / 2 powi (e - (int p - 1))) = m * 2 ^ n"
    by (simp only: round_even_of_int)
  have "round_to_precision p x = of_int (m * 2 ^ n) * 2 powi (e - (int p - 1))"
    using xn by (simp add: round_to_precision_def e_def [symmetric] r Let_def)
  also have "\<dots> = x"
    by (simp add: x k power_int_add)
  finally show ?thesis .
qed

lemma round_to_precision_of_int:
  "\<bar>m\<bar> < 2 ^ p \<Longrightarrow> round_to_precision p (of_int m) = of_int m"
  using round_to_precision_exact [of "of_int m" m 0 p] by simp

lemma round_to_precision_numeral:
  "numeral n < (2::int) ^ p \<Longrightarrow> round_to_precision p (numeral n) = numeral n"
  using round_to_precision_of_int [of "numeral n" p] by simp

lemma round_to_precision_half:
  "0 < p \<Longrightarrow> round_to_precision p (1 / 2 ^ n) = 1 / 2 ^ n"
  using round_to_precision_exact [of "1 / 2 ^ n" 1 "- int n" p]
  by (simp add: power_int_minus field_simps)

text \<open>One third is not a \<^verbatim>\<open>float\<close>: the nearest one is \<open>11184811 / 2 ^ 25\<close>.\<close>

lemma binary32_third: "binary32 (1 / 3) = 11184811 / 33554432"
proof -
  have "round_to_precision 24 (1 / 3) =
          of_int (round_even ((1 / 3) / 2 powi (- 2 - (int 24 - 1)))) * 2 powi (- 2 - (int 24 - 1))"
    by (rule round_to_precision_at) (simp_all add: power_int_minus)
  moreover have "round_even ((1 / 3) / 2 powi (- 2 - (int 24 - 1))) = 11184811"
  proof -
    have "(1 / 3) / 2 powi (- 2 - (int 24 - 1)) = (33554432 / 3 :: real)"
      by (simp add: power_int_minus)
    moreover have "\<lfloor>33554432 / 3 :: real\<rfloor> = 11184810"
      by linarith
    ultimately show ?thesis
      by (simp add: round_even_def)
  qed
  ultimately show ?thesis
    by (simp add: binary32_def power_int_minus)
qed

section \<open>Scaling\<close>

subsection \<open>Scaling multiplies the endpoints and divides the probabilities\<close>

text \<open>
  Claim C1, with the rounding of the machine.  For every model \<open>M\<close> and every factor
  \<open>k\<close> other than 0, \<^const>\<open>scale_m1_data\<close> returns a model: its name is the one of \<open>M\<close>;
  its meta entries are those of \<open>M\<close>, but for \<^verbatim>\<open>SCALE\<close>, which holds the text of the old
  scale times \<open>k\<close>, rounded to \<^verbatim>\<open>double\<close> (the old scale is 1 when the key is absent or
  \<^verbatim>\<open>std::stof\<close> rejects its value); every node record and every block stands at its old
  position with its type, each endpoint \<open>k\<close> times the old one, rounded to
  \<^verbatim>\<open>long double\<close>, and each probability the smaller of 1 and \<open>p / k\<close> rounded to \<^verbatim>\<open>float\<close>.
  This holds for every rounding.
\<close>

theorem scale_m1_data_scales:
  assumes "k \<noteq> 0"
  shows "\<exists>M'. scale_m1_data stof to_string to_float to_double to_long_double M k = Inr M'
     \<and> meta_name (meta M') = meta_name (meta M)
     \<and> map_of (meta_values (meta M')) =
         (map_of (meta_values (meta M)))(''SCALE'' \<mapsto>
            to_string (to_double
              ((case map_of (meta_values (meta M)) ''SCALE'' of
                  None \<Rightarrow> 1
                | Some s \<Rightarrow> (case stof s of None \<Rightarrow> 1 | Some r \<Rightarrow> r)) * k)))
     \<and> length (nodes M') = length (nodes M)
     \<and> (\<forall>i < length (nodes M).
           startID (nodes M' ! i) = to_long_double (startID (nodes M ! i) * k)
         \<and> endID (nodes M' ! i) = to_long_double (endID (nodes M ! i) * k)
         \<and> node_type (nodes M' ! i) = node_type (nodes M ! i))
     \<and> length (edges M') = length (edges M)
     \<and> (\<forall>i < length (edges M).
           edge_type (edges M' ! i) = edge_type (edges M ! i)
         \<and> length (blocks (edges M' ! i)) = length (blocks (edges M ! i))
         \<and> (\<forall>j < length (blocks (edges M ! i)).
               startX (blocks (edges M' ! i) ! j) = to_long_double (startX (blocks (edges M ! i) ! j) * k)
             \<and> endX (blocks (edges M' ! i) ! j) = to_long_double (endX (blocks (edges M ! i) ! j) * k)
             \<and> startY (blocks (edges M' ! i) ! j) = to_long_double (startY (blocks (edges M ! i) ! j) * k)
             \<and> endY (blocks (edges M' ! i) ! j) = to_long_double (endY (blocks (edges M ! i) ! j) * k)
             \<and> expression_probability (blocks (edges M' ! i) ! j) =
                 min 1 (to_float (expression_probability (blocks (edges M ! i) ! j) / k))))"
proof -
  have blk: "expression_probability (scale_block to_float to_long_double k b)
               = min 1 (to_float (expression_probability b / k))"
    "startX (scale_block to_float to_long_double k b) = to_long_double (startX b * k)"
    "endX (scale_block to_float to_long_double k b) = to_long_double (endX b * k)"
    "startY (scale_block to_float to_long_double k b) = to_long_double (startY b * k)"
    "endY (scale_block to_float to_long_double k b) = to_long_double (endY b * k)" for b
    by (simp_all add: scale_block_def Let_def min_def)
  have old: "(if map_contains m ''SCALE''
              then (case stof (the (map_of m ''SCALE'')) of Some r \<Rightarrow> r | None \<Rightarrow> 1) else 1)
           = (case map_of m ''SCALE'' of None \<Rightarrow> 1
              | Some s \<Rightarrow> (case stof s of None \<Rightarrow> 1 | Some r \<Rightarrow> r))" for m :: "(string, string) std_map"
    by (auto simp: map_contains_def split: option.splits)
  show ?thesis
    using assms
    by (simp add: scale_m1_data_def Let_def old map_of_map_set map_of_copied blk)
qed

text \<open>
  The theorem at \<open>square_model (1 / 2)\<close> and the factor 2, in the formats of the x86:
  every number of the result is held exactly.
\<close>

theorem scale_m1_data_scales_witness:
  "(2::real) \<noteq> 0 \<and>
   scale_m1_data toy_stold toy_to_string binary32 binary64 x87_extended (square_model (1 / 2)) 2 =
     Inr \<lparr>meta = \<lparr>meta_name = ''square'',
                 meta_values = [(''SCALE'', ''2.000000''), (''SCALE'', ''1.000000'')]\<rparr>,
          nodes = [\<lparr>startID = 0, endID = 6, node_type = ''A''\<rparr>],
          edges = [\<lparr>edge_type = ''E'',
                    blocks = [\<lparr>startX = 0, endX = 6, startY = 0, endY = 6,
                               expression_probability = 1 / 4\<rparr>]\<rparr>]\<rparr>"
proof -
  have q: "binary32 (1 / 4) = 1 / 4"
    using round_to_precision_half [of 24 2] by (simp add: binary32_def)
  have d: "binary64 2 = 2"
    using round_to_precision_numeral [of "num.Bit0 num.One" 53] by (simp add: binary64_def)
  have l: "x87_extended 0 = 0" "x87_extended 6 = 6"
    using round_to_precision_numeral [of "num.Bit0 (num.Bit1 num.One)" 64]
    by (simp_all add: x87_extended_def round_to_precision_def)
  show ?thesis
    using scale_m1_data_scales
      [of 2 toy_stold toy_to_string binary32 binary64 x87_extended "square_model (1 / 2)"]
    by (simp add: scale_m1_data_def square_model_def toy_stold_def toy_to_string_def
        map_items_def map_set_def map_contains_def scale_block_def q d l)
qed

text \<open>
  Claim C1, as stated, fails: the quotient is the one of the machine.  The probability 1
  scaled by 3 is the \<^verbatim>\<open>float\<close> nearest to one third, not one third.
\<close>

theorem scaled_probability_is_rounded:
  "scale_m1_data toy_stold toy_to_string binary32 binary64 x87_extended (square_model 1) 3 =
     Inr \<lparr>meta = \<lparr>meta_name = ''square'',
                 meta_values = [(''SCALE'', ''3.000000''), (''SCALE'', ''1.000000'')]\<rparr>,
          nodes = [\<lparr>startID = 0, endID = 9, node_type = ''A''\<rparr>],
          edges = [\<lparr>edge_type = ''E'',
                    blocks = [\<lparr>startX = 0, endX = 9, startY = 0, endY = 9,
                               expression_probability = 11184811 / 33554432\<rparr>]\<rparr>]\<rparr>
   \<and> (11184811 / 33554432 :: real) \<noteq> min 1 (1 / 3)"
proof -
  have d: "binary64 3 = 3"
    using round_to_precision_numeral [of "num.Bit1 num.One" 53] by (simp add: binary64_def)
  have l: "x87_extended 0 = 0" "x87_extended 9 = 9"
    using round_to_precision_numeral [of "num.Bit1 (num.Bit0 (num.Bit0 num.One))" 64]
    by (simp_all add: x87_extended_def round_to_precision_def)
  show ?thesis
    by (simp add: scale_m1_data_def square_model_def toy_stold_def toy_to_string_def
        map_items_def map_set_def map_contains_def scale_block_def binary32_third d l)
qed

section \<open>The sampler: the loop of one block\<close>

text \<open>
  In the last row of the 64-bit range the exit test \<^verbatim>\<open>idx_y > endY\<close> is never true: whatever
  the fuel, the loop does not leave.
\<close>

lemma jump_loop_stuck:
  "e_Y = - 1 \<Longrightarrow> jump_loop fuel (\<lambda>i. 1) n 1 s_X e_Y 0 idx_y = None"
proof (induction fuel arbitrary: n idx_y)
  case 0
  then show ?case by simp
next
  case (Suc fuel)
  have "\<not> idx_y + 1 > (- 1 :: u64)"
    by (simp add: not_less)
  then show ?case
    using Suc.IH [OF Suc.prems] Suc.prems by (simp add: Let_def)
qed

text \<open>
  Away from the end of the range the loop leaves.  With every distance between 1 and
  \<open>J\<close>, and \<open>J\<close> more than the largest corner still below \<open>2 ^ 64\<close>, no sum wraps; the
  linear cursor \<open>idx_y * len_x + offset_x\<close> grows by the distance in each iteration, and
  the rectangle has \<open>width * height\<close> cells.
\<close>

lemma div_le_jump:
  fixes o_x j L :: nat
  assumes "o_x < L" "1 \<le> j"
  shows "(o_x + j) div L \<le> j"
proof -
  have "o_x + j < L * (j + 1)"
  proof -
    have "L * (j + 1) = L * j + L" by simp
    moreover have "j \<le> L * j" using assms by (cases L) auto
    ultimately show ?thesis using assms by linarith
  qed
  then have "(o_x + j) div L < j + 1"
    using assms by (simp add: less_mult_imp_div_less mult.commute)
  then show ?thesis by simp
qed

lemma jump_loop_returns:
  assumes jumps: "\<And>i. jump i \<noteq> 0 \<and> unat (jump i) \<le> J"
      and len: "len_x \<noteq> 0" "unat len_x + J \<le> 2 ^ 64"
      and eY: "unat e_Y + J < 2 ^ 64"
      and off: "offset_x < len_x"
      and y: "idx_y \<le> e_Y"
      and fuel: "(unat e_Y + 1) * unat len_x \<le> fuel + (unat idx_y * unat len_x + unat offset_x)"
  shows "\<exists>es n'. jump_loop fuel jump n len_x s_X e_Y offset_x idx_y = Some (es, n')"
  using off y fuel
proof (induction fuel arbitrary: n offset_x idx_y)
  case 0
  have "unat offset_x < unat len_x" using "0.prems"(1) by (simp add: word_less_nat_alt)
  moreover have "unat idx_y \<le> unat e_Y" using "0.prems"(2) by (simp add: word_le_nat_alt)
  then have "(unat idx_y + 1) * unat len_x \<le> (unat e_Y + 1) * unat len_x"
    by (intro mult_le_mono1) simp
  moreover have "unat idx_y * unat len_x + unat len_x = (unat idx_y + 1) * unat len_x"
    by simp
  ultimately have "unat idx_y * unat len_x + unat offset_x < (unat e_Y + 1) * unat len_x"
    by linarith
  with "0.prems"(3) show ?case by simp
next
  case (Suc fuel)
  define L where "L = unat len_x"
  define o_x where "o_x = unat offset_x"
  define j where "j = unat (jump n)"
  define yy where "yy = unat idx_y"
  have Lpos: "0 < L" using len(1) by (simp add: L_def unat_gt_0)
  have o_lt: "o_x < L" using Suc.prems(1) by (simp add: o_x_def L_def word_less_nat_alt)
  have j1: "1 \<le> j" using jumps [of n] by (simp add: j_def Suc_le_eq unat_gt_0)
  have jJ: "j \<le> J" using jumps [of n] by (simp add: j_def)
  have y_le: "yy \<le> unat e_Y" using Suc.prems(2) by (simp add: yy_def word_le_nat_alt)
  have "o_x + j < 2 ^ 64" using o_lt jJ len(2) by (simp add: L_def)
  then have next_nat: "unat (offset_x + jump n) = o_x + j"
    unfolding o_x_def j_def by (simp add: unat_add_lem [THEN iffD1])
  have off'_nat: "unat ((offset_x + jump n) mod len_x) = (o_x + j) mod L"
    by (simp add: unat_mod next_nat L_def)
  have div_nat: "unat ((offset_x + jump n) div len_x) = (o_x + j) div L"
    by (simp add: unat_div next_nat L_def)
  have d_le: "(o_x + j) div L \<le> j" using o_lt j1 by (rule div_le_jump)
  then have "yy + (o_x + j) div L < 2 ^ 64" using y_le jJ eY by linarith
  then have y'_nat: "unat (idx_y + (offset_x + jump n) div len_x) = yy + (o_x + j) div L"
    unfolding yy_def using div_nat by (simp add: unat_add_lem [THEN iffD1])
  show ?case
  proof (cases "idx_y + (offset_x + jump n) div len_x > e_Y")
    case True
    then show ?thesis by (simp add: Let_def)
  next
    case False
    then have y': "idx_y + (offset_x + jump n) div len_x \<le> e_Y" by simp
    have off': "(offset_x + jump n) mod len_x < len_x"
      using Lpos by (simp add: word_less_nat_alt off'_nat L_def)
    have "(yy + (o_x + j) div L) * L + (o_x + j) mod L = yy * L + (o_x + j)"
      by (simp add: algebra_simps)
    then have "(unat e_Y + 1) * unat len_x
        \<le> fuel + (unat (idx_y + (offset_x + jump n) div len_x) * unat len_x
                   + unat ((offset_x + jump n) mod len_x))"
      using Suc.prems(3) j1 unfolding y'_nat off'_nat
      by (simp add: L_def o_x_def yy_def)
    from Suc.IH [OF off' y' this, of "Suc n"]
    obtain es n' where
      "jump_loop fuel jump (Suc n) len_x s_X e_Y ((offset_x + jump n) mod len_x)
         (idx_y + (offset_x + jump n) div len_x) = Some (es, n')"
      by blast
    with False show ?thesis by (simp add: Let_def)
  qed
qed

lemma block_edges_returns:
  assumes jumps: "\<And>i p. jump i p \<noteq> 0 \<and> unat (jump i p) \<le> J"
      and x: "s_X \<le> e_X" and y: "s_Y \<le> e_Y"
      and eX: "unat e_X + J < 2 ^ 64" and eY: "unat e_Y + J < 2 ^ 64"
      and fuel: "(unat e_X - unat s_X + 1) * (unat e_Y - unat s_Y + 1) \<le> fuel"
  shows "\<exists>es n'. block_edges fuel jump e_type (s_X, e_X, s_Y, e_Y, prob) n = Some (Inr (es, n'))"
proof -
  have sx: "unat s_X \<le> unat e_X" and sy: "unat s_Y \<le> unat e_Y"
    using x y by (simp_all add: word_le_nat_alt)
  have "unat (e_X - s_X) = unat e_X - unat s_X"
    using x by (simp add: unat_sub)
  moreover have J1: "1 \<le> J"
    using jumps [of 0 prob] by (metis Suc_le_eq One_nat_def le_trans unat_gt_0 word_neq_0_conv)
  then have "unat e_X - unat s_X + 1 < 2 ^ 64" using eX by linarith
  ultimately have len_nat: "unat (e_X - s_X + 1) = unat e_X - unat s_X + 1"
    by (simp add: unat_add_lem [THEN iffD1])
  then have nz: "e_X - s_X + 1 \<noteq> 0"
    by (metis add_is_0 one_neq_zero unat_0)
  have b: "unat (e_X - s_X + 1) + J \<le> 2 ^ 64" using len_nat eX sx by linarith
  have off: "(0::u64) < e_X - s_X + 1" using nz by (simp add: word_neq_0_conv)
  have "unat e_Y + 1 = unat s_Y + (unat e_Y - unat s_Y + 1)"
    using sy by simp
  then have "(unat e_Y + 1) * unat (e_X - s_X + 1)
        = unat s_Y * unat (e_X - s_X + 1) + (unat e_Y - unat s_Y + 1) * unat (e_X - s_X + 1)"
    by (metis add_mult_distrib)
  then have f: "(unat e_Y + 1) * unat (e_X - s_X + 1)
        \<le> fuel + (unat s_Y * unat (e_X - s_X + 1) + unat (0::u64))"
    using fuel by (simp add: len_nat mult.commute)
  from jump_loop_returns [where jump = "\<lambda>i. jump i prob", OF _ nz b eY off y f, of n s_X] jumps
  obtain es n' where "jump_loop fuel (\<lambda>i. jump i prob) n (e_X - s_X + 1) s_X e_Y 0 s_Y = Some (es, n')"
    by blast
  then show ?thesis using nz by (simp add: block_edges_def Let_def)
qed

text \<open>
  Claim C10.  The loop of a block leaves after at most \<open>width * height + 1\<close> iterations
  for every block with a probability in \<open>(0, 1]\<close>.  At the block of
  \<^const>\<open>last_row_model\<close>, whose probability is 1 (the distance is then 1 at every draw),
  the sampler does not return, whatever the fuel: \<^verbatim>\<open>idx_y\<close> wraps to 0 and stays at most
  \<^verbatim>\<open>endY\<close> for ever.
\<close>

theorem last_row_never_returns:
  "generate_graph fuel (\<lambda>seed n prob. 1) mt hc last_row_model seed = None"
  by (simp add: generate_graph_def last_row_model_def node_rows_def read_edge_block_data_def
      MAX_ALLOWED_TYPE_LENGTH_def convert_start_of_block_def convert_end_of_block_def
      cast_NodeID_def bindE_def multithread_generate_graph_def block_edges_def jump_loop_stuck)

section \<open>The sampler: blocks out of order, and the ranges of the threads\<close>

lemma convert_blocks_ordered:
  "convert_blocks bs = Inr rs \<Longrightarrow>
   \<forall>(s_X, e_X, s_Y, e_Y, prob) \<in> set rs. s_X \<le> e_X \<and> s_Y \<le> e_Y"
proof (induction bs arbitrary: rs)
  case Nil
  then show ?case by simp
next
  case (Cons b bs)
  then show ?case
    by (auto simp: bindE_def not_less split: sum.splits if_splits)
qed

text \<open>
  Claim C8.  A block whose integer corners are out of order is skipped, the sampler
  does not abort and goes on.  \<^verbatim>\<open>read_edge_block_data\<close> drops the block of
  \<^const>\<open>degenerate_model\<close>; the list of the edge type is then empty,
  \<^verbatim>\<open>block.size() - 1\<close> wraps to the largest index, and the worker reads \<^verbatim>\<open>data[0]\<close> of
  an empty vector.
\<close>

theorem degenerate_block_out_of_bounds:
  "convert_all (edges degenerate_model) = Inr [(''E'', [])]
   \<and> generate_graph fuel jump mt hc degenerate_model seed = Some (Inl Out_Of_Bounds)"
  by (simp add: generate_graph_def degenerate_model_def node_rows_def read_edge_block_data_def
      MAX_ALLOWED_TYPE_LENGTH_def convert_start_of_block_def convert_end_of_block_def
      cast_NodeID_def bindE_def multithread_generate_graph_def)

subsection \<open>The model with a ramp of blocks\<close>

lemma cast_NodeID_of_nat: "n < 2 ^ 64 \<Longrightarrow> cast_NodeID (real n) = Inr (word_of_nat n)"
proof -
  assume "n < 2 ^ 64"
  then have "real n < 2 ^ 64"
    by (metis of_nat_less_iff of_nat_numeral of_nat_power)
  then show ?thesis by (simp add: cast_NodeID_def)
qed

lemma ramp_corners_ordered:
  assumes "i + 2 < 2 ^ 64"
  shows "\<not> (word_of_nat i + 2 :: u64) < word_of_nat i + 1"
proof -
  have "unat (word_of_nat i :: u64) = i"
    using assms by (simp add: unat_of_nat take_bit_nat_eq_self)
  then have "unat (word_of_nat i + 2 :: u64) = i + 2" "unat (word_of_nat i + 1 :: u64) = i + 1"
    using assms by (simp_all add: unat_word_ariths take_bit_nat_eq_self)
  then show ?thesis by (simp add: word_less_nat_alt)
qed

lemma unat_word_of_nat: "m < 2 ^ 64 \<Longrightarrow> unat (word_of_nat m :: u64) = m"
  by (simp add: unat_of_nat take_bit_nat_eq_self)

lemma convert_ramp_block:
  assumes i: "i + 2 < 2 ^ 64"
  shows "convert_blocks (ramp_block i # bs)
         = bindE (convert_blocks bs) (\<lambda>res. Inr (ramp_record i # res))"
proof -
  have "real i + 2 = real (i + 2)" by simp
  then have c2: "cast_NodeID (real i + 2) = Inr (word_of_nat i + 2)"
    using cast_NodeID_of_nat [of "i + 2"] i by (simp add: add.commute)
  have c0: "cast_NodeID (real i) = Inr (word_of_nat i)"
    using cast_NodeID_of_nat [of i] i by simp
  have c: "cast_NodeID 0 = Inr 0" "cast_NodeID 1 = Inr 1"
    by (simp_all add: cast_NodeID_def)
  show ?thesis
    using ramp_corners_ordered [OF i]
    by (simp add: ramp_block_def ramp_record_def convert_start_of_block_def
        convert_end_of_block_def bindE_def c0 c2 c)
qed

lemma convert_ramp_blocks:
  "\<forall>i \<in> set is. i + 2 < 2 ^ 64 \<Longrightarrow>
   convert_blocks (map ramp_block is) = Inr (map ramp_record is)"
proof (induction "is")
  case Nil
  then show ?case by simp
next
  case (Cons i "is")
  then have i: "i + 2 < 2 ^ 64"
    and rest: "convert_blocks (map ramp_block is) = Inr (map ramp_record is)"
    by simp_all
  show ?case
    by (simp add: convert_ramp_block [OF i] rest bindE_def del: convert_blocks.simps)
qed

lemma sample_edges_ramp:
  assumes "n + 2 < 2 ^ 64"
  shows "sample_edges fuel jump mt hc schedules (ramp_model n) seed =
     (case generate_edge_types fuel jump (mt seed) hc [(''E'', map ramp_record [0..<n])] 0 of
        Some (Inr written) \<Rightarrow> edge_file schedules written
      | _ \<Rightarrow> None)
   \<and> (generate_graph fuel jump mt hc (ramp_model n) seed = Some (Inl Out_Of_Bounds)
        \<longleftrightarrow> generate_edge_types fuel jump (mt seed) hc [(''E'', map ramp_record [0..<n])] 0
              = Some (Inl Out_Of_Bounds))"
proof -
  define m where "m = n + 1"
  have m: "m < 2 ^ 64 - 1" using assms by (simp add: m_def)
  have "real n + 1 = real m" by (simp add: m_def)
  then have c: "cast_NodeID (real n + 1) = Inr (word_of_nat m)"
    using cast_NodeID_of_nat [of m] m by simp
  have c0: "cast_NodeID 0 = Inr 0"
    by (simp add: cast_NodeID_def)
  have "unat (word_of_nat m :: u64) = m"
    using m by (intro unat_word_of_nat) simp
  moreover have "unat (- 1 :: u64) = 2 ^ 64 - 1" by (simp add: unsigned_minus_1_eq_mask mask_eq_exp_minus_1)
  ultimately have ne: "(word_of_nat m :: u64) \<noteq> - 1"
    using m by (metis less_not_refl)
  have nodes: "\<exists>rows. join_all (map node_rows (nodes (ramp_model n))) = Some (Inr rows)"
    using ne by (simp add: ramp_model_def node_rows_def convert_start_of_block_def
        convert_end_of_block_def c c0)
  have conv: "convert_all (edges (ramp_model n)) = Inr [(''E'', map ramp_record [0..<n])]"
    using convert_ramp_blocks [of "[0..<n]"] assms
    by (simp add: ramp_model_def read_edge_block_data_def MAX_ALLOWED_TYPE_LENGTH_def bindE_def)
  from nodes obtain rows where "join_all (map node_rows (nodes (ramp_model n))) = Some (Inr rows)"
    by blast
  then show ?thesis
    by (auto simp: sample_edges_def generate_graph_def conv split: option.splits sum.splits)
qed

lemma ramp_100_three_cores:
  "generate_graph 3 toy_jump toy_mt 3 (ramp_model 100) 0 = Some (Inl Out_Of_Bounds)"
proof -
  have e: "generate_edge_types 3 toy_jump (toy_mt 0) 3 [(''E'', map ramp_record [0..<100])] 0
           = Some (Inl Out_Of_Bounds)"
    by code_simp
  have c: "(100::nat) + 2 < 2 ^ 64" by simp
  show ?thesis
    unfolding sample_edges_ramp [OF c, THEN conjunct2] by (rule e)
qed

text \<open>
  Claim C6.  With at least 100 blocks the ranges of the threads are disjoint, cover
  every index once and hold no index beyond the last block.  With 100 blocks and
  \<^verbatim>\<open>hardware_concurrency() = 3\<close> the second of the two threads is given the range
  from 50 to 100, and its access \<^verbatim>\<open>data[100]\<close> is outside the vector.
\<close>

theorem second_thread_out_of_bounds:
  "workloads 3 100 = [(0, 49), (50, 100)]
   \<and> generate_graph 3 toy_jump toy_mt 3 (ramp_model 100) 0 = Some (Inl Out_Of_Bounds)"
proof -
  have "workloads 3 100 = [(0, 49), (50, 100)]"
    by code_simp
  then show ?thesis
    using ramp_100_three_cores by simp
qed

section \<open>The sampler: the edges of two runs\<close>

lemma sum_mset_update:
  "w < length buffers \<Longrightarrow> buffers ! w = x # xs \<Longrightarrow>
   sum_list (map mset buffers) = {#x#} + sum_list (map mset (buffers[w := xs]))"
proof (induction buffers arbitrary: w)
  case Nil
  then show ?case by simp
next
  case (Cons b bs)
  then show ?case by (cases w) auto
qed

lemma mset_write_order_subset:
  "mset (write_order schedule buffers) \<subseteq># sum_list (map mset buffers)"
proof (induction schedule arbitrary: buffers)
  case Nil
  then show ?case by simp
next
  case (Cons w schedule)
  show ?case
  proof (cases "w < length buffers")
    case False
    then show ?thesis using Cons.IH by simp
  next
    case True
    show ?thesis
    proof (cases "buffers ! w")
      case Nil
      then show ?thesis using True Cons.IH by simp
    next
      case (Cons x xs)
      have "mset (write_order schedule (buffers[w := xs]))
              \<subseteq># sum_list (map mset (buffers[w := xs]))"
        by (rule Cons.IH)
      then show ?thesis
        using True Cons sum_mset_update [OF True Cons] by simp
    qed
  qed
qed

lemma size_sum_mset: "size (sum_list (map mset buffers)) = sum_list (map length buffers)"
  by (induction buffers) auto

lemma mset_write_order:
  assumes "all_written schedule buffers"
  shows "mset (write_order schedule buffers) = sum_list (map mset buffers)"
proof (rule ccontr)
  assume "mset (write_order schedule buffers) \<noteq> sum_list (map mset buffers)"
  then have "mset (write_order schedule buffers) \<subset># sum_list (map mset buffers)"
    using mset_write_order_subset [of schedule buffers] by (simp add: subset_mset.less_le)
  then have "size (mset (write_order schedule buffers)) < size (sum_list (map mset buffers))"
    by (rule mset_subset_size)
  with assms show False
    by (simp add: all_written_def size_sum_mset)
qed

lemma mset_edge_file:
  "edge_file schedules written = Some rows \<Longrightarrow>
   mset rows = sum_list (map (\<lambda>buffers. sum_list (map mset buffers)) written)"
proof (induction schedules written arbitrary: rows rule: edge_file.induct)
  case 1
  then show ?case by simp
next
  case (2 schedule schedules buffers rest)
  then show ?case
    by (auto simp: mset_write_order split: if_splits)
qed simp_all

subsection \<open>Every schedule that writes all rows gives the same edges, and there is one\<close>

lemma write_order_replicate:
  "w < length buffers \<Longrightarrow> buffers ! w = b \<Longrightarrow>
   write_order (replicate (length b) w @ schedule) buffers
     = b @ write_order schedule (buffers[w := []])"
proof (induction b arbitrary: buffers)
  case Nil
  then have "buffers[w := []] = buffers"
    by (metis list_update_id)
  then show ?case by simp
next
  case (Cons x xs)
  have "write_order (replicate (length xs) w @ schedule) (buffers[w := xs])
          = xs @ write_order schedule (buffers[w := xs, w := []])"
    using Cons.prems by (intro Cons.IH) simp_all
  then show ?case
    using Cons.prems by simp
qed

lemma write_order_sequential:
  "write_order (sequential n buffers) (replicate n [] @ buffers) = concat buffers"
proof (induction buffers arbitrary: n)
  case Nil
  then show ?case by simp
next
  case (Cons b rest)
  have "(replicate n [] @ b # rest)[n := []] = replicate (Suc n) [] @ rest"
    by (simp add: list_update_append replicate_append_same)
  then show ?case
    using write_order_replicate [of n "replicate n [] @ b # rest" b "sequential (Suc n) rest"]
      Cons.IH [of "Suc n"]
    by (simp add: nth_append)
qed

lemma all_written_sequential: "all_written (sequential 0 buffers) buffers"
  using write_order_sequential [of 0 buffers]
  by (simp add: all_written_def length_concat)

lemma edge_file_sequential:
  "edge_file (map (sequential 0) written) written = Some (concat (map concat written))"
proof (induction written)
  case Nil
  then show ?case by simp
next
  case (Cons buffers rest)
  then show ?case
    using write_order_sequential [of 0 buffers]
    by (simp add: all_written_sequential)
qed

subsection \<open>The model with a strip of blocks\<close>

lemma strip_corners_ordered:
  assumes "i + 4 < 2 ^ 64"
  shows "\<not> (word_of_nat i + 4 :: u64) < word_of_nat i + 1"
proof -
  have "unat (word_of_nat i :: u64) = i"
    using assms by (simp add: unat_of_nat take_bit_nat_eq_self)
  then have "unat (word_of_nat i + 4 :: u64) = i + 4" "unat (word_of_nat i + 1 :: u64) = i + 1"
    using assms by (simp_all add: unat_word_ariths take_bit_nat_eq_self)
  then show ?thesis by (simp add: word_less_nat_alt)
qed

lemma convert_strip_block:
  assumes i: "4 * i + 4 < 2 ^ 64"
  shows "convert_blocks (strip_block i # bs)
         = bindE (convert_blocks bs) (\<lambda>res. Inr (strip_record i # res))"
proof -
  have "real (4 * i) + 4 = real (4 * i + 4)" by simp
  then have c4: "cast_NodeID (real (4 * i) + 4) = Inr (word_of_nat (4 * i) + 4)"
    using cast_NodeID_of_nat [of "4 * i + 4"] i by (simp add: add.commute)
  have c0: "cast_NodeID (real (4 * i)) = Inr (word_of_nat (4 * i))"
    using cast_NodeID_of_nat [of "4 * i"] i by simp
  have c: "cast_NodeID 0 = Inr 0" "cast_NodeID 1 = Inr 1"
    by (simp_all add: cast_NodeID_def)
  show ?thesis
    using strip_corners_ordered [OF i]
    by (simp add: strip_block_def strip_record_def convert_start_of_block_def
        convert_end_of_block_def bindE_def c0 c4 c del: of_nat_mult)
qed

lemma convert_strip_blocks:
  "\<forall>i \<in> set is. 4 * i + 4 < 2 ^ 64 \<Longrightarrow>
   convert_blocks (map strip_block is) = Inr (map strip_record is)"
proof (induction "is")
  case Nil
  then show ?case by simp
next
  case (Cons i "is")
  then have i: "4 * i + 4 < 2 ^ 64"
    and rest: "convert_blocks (map strip_block is) = Inr (map strip_record is)"
    by simp_all
  show ?case
    by (simp add: convert_strip_block [OF i] rest bindE_def del: convert_blocks.simps)
qed

lemma generate_graph_strip:
  assumes "4 * n + 4 < 2 ^ 64"
  shows "\<exists>rows. generate_graph fuel jump mt hc (strip_model n) seed =
     (case generate_edge_types fuel jump (mt seed) hc [(''E'', map strip_record [0..<n])] 0 of
        None \<Rightarrow> None
      | Some (Inl e) \<Rightarrow> Some (Inl e)
      | Some (Inr written) \<Rightarrow> Some (Inr (rows, written)))"
proof -
  define m where "m = 4 * n"
  have m: "m < 2 ^ 64 - 1" using assms by (simp add: m_def)
  have c: "cast_NodeID (real m) = Inr (word_of_nat m)"
    using cast_NodeID_of_nat [of m] m by simp
  have c0: "cast_NodeID 0 = Inr 0"
    by (simp add: cast_NodeID_def)
  have "unat (word_of_nat m :: u64) = m"
    using m by (intro unat_word_of_nat) simp
  moreover have "unat (- 1 :: u64) = 2 ^ 64 - 1" by (simp add: unsigned_minus_1_eq_mask mask_eq_exp_minus_1)
  ultimately have ne: "(word_of_nat m :: u64) \<noteq> - 1"
    using m by (metis less_not_refl)
  have nodes: "\<exists>rows. join_all (map node_rows (nodes (strip_model n))) = Some (Inr rows)"
    using ne by (simp add: strip_model_def node_rows_def convert_start_of_block_def
        convert_end_of_block_def c [unfolded m_def] c0 m_def del: of_nat_mult)
  have conv: "convert_all (edges (strip_model n)) = Inr [(''E'', map strip_record [0..<n])]"
    using convert_strip_blocks [of "[0..<n]"] assms
    by (simp add: strip_model_def read_edge_block_data_def MAX_ALLOWED_TYPE_LENGTH_def bindE_def)
  from nodes obtain rows where "join_all (map node_rows (nodes (strip_model n))) = Some (Inr rows)"
    by blast
  then show ?thesis
    by (auto simp: generate_graph_def conv split: option.splits sum.splits)
qed

lemma sample_edges_strip:
  assumes "4 * n + 4 < 2 ^ 64"
  shows "sample_edges fuel jump mt hc schedules (strip_model n) seed =
     (case generate_edge_types fuel jump (mt seed) hc [(''E'', map strip_record [0..<n])] 0 of
        Some (Inr written) \<Rightarrow> edge_file schedules written
      | _ \<Rightarrow> None)"
proof -
  from generate_graph_strip [OF assms, of fuel jump mt hc seed] obtain rows where
    g: "generate_graph fuel jump mt hc (strip_model n) seed =
     (case generate_edge_types fuel jump (mt seed) hc [(''E'', map strip_record [0..<n])] 0 of
        None \<Rightarrow> None
      | Some (Inl e) \<Rightarrow> Some (Inl e)
      | Some (Inr written) \<Rightarrow> Some (Inr (rows, written)))"
    by blast
  show ?thesis
    unfolding sample_edges_def g
    by (simp split: option.splits sum.splits del: generate_edge_types.simps)
qed

lemma strip_101_two_cores:
  "map_option (\<lambda>f. (length f, (203, 1, ''E'') \<in> set f))
     (sample_edges 3 toy_jump toy_mt 2 [replicate 101 0] (strip_model 101) 0)
   = Some (101, True)"
proof -
  have e: "map_option (\<lambda>f. (length f, (203, 1, ''E'') \<in> set f))
     (case generate_edge_types 3 toy_jump (toy_mt 0) 2 [(''E'', map strip_record [0..<101])] 0 of
        Some (Inr written) \<Rightarrow> edge_file [replicate 101 0] written
      | _ \<Rightarrow> None) = Some (101, True)"
    by code_simp
  have c: "4 * (101::nat) + 4 < 2 ^ 64" by simp
  show ?thesis
    unfolding sample_edges_strip [OF c] by (rule e)
qed

lemma strip_101_three_cores:
  "map_option (\<lambda>f. (hd f, length f, (203, 1, ''E'') \<in> set f))
     (sample_edges 3 toy_jump toy_mt 3 [replicate 50 0 @ replicate 51 1] (strip_model 101) 0)
   = Some ((3, 1, ''E''), 101, False)"
proof -
  have e: "map_option (\<lambda>f. (hd f, length f, (203, 1, ''E'') \<in> set f))
     (case generate_edge_types 3 toy_jump (toy_mt 0) 3 [(''E'', map strip_record [0..<101])] 0 of
        Some (Inr written) \<Rightarrow> edge_file [replicate 50 0 @ replicate 51 1] written
      | _ \<Rightarrow> None) = Some ((3, 1, ''E''), 101, False)"
    by code_simp
  have c: "4 * (101::nat) + 4 < 2 ^ 64" by simp
  show ?thesis
    unfolding sample_edges_strip [OF c] by (rule e)
qed

lemma strip_101_three_cores_swapped:
  "map_option (\<lambda>f. (hd f, length f))
     (sample_edges 3 toy_jump toy_mt 3 [replicate 51 1 @ replicate 50 0] (strip_model 101) 0)
   = Some ((204, 1, ''E''), 101)"
proof -
  have e: "map_option (\<lambda>f. (hd f, length f))
     (case generate_edge_types 3 toy_jump (toy_mt 0) 3 [(''E'', map strip_record [0..<101])] 0 of
        Some (Inr written) \<Rightarrow> edge_file [replicate 51 1 @ replicate 50 0] written
      | _ \<Rightarrow> None) = Some ((204, 1, ''E''), 101)"
    by code_simp
  have c: "4 * (101::nat) + 4 < 2 ^ 64" by simp
  show ?thesis
    unfolding sample_edges_strip [OF c] by (rule e)
qed

text \<open>
  Claim C3, for a fixed number of hardware threads.  For every model, seed and number
  of hardware threads: when the workers return (no access outside the vector of the
  blocks, no loop without end), there is an order of taking the write lock that gives
  an edge file, and every edge file that the workers can write, in whatever order they
  take the lock, holds the same multiset of edges, the rows that the workers
  generated; when a worker does not return, no edge file is completed.
\<close>

theorem sample_edges_same_multiset:
  "(case generate_graph fuel jump mt hc M seed of
      Some (Inr (node_file, written)) \<Rightarrow>
        (\<exists>schedules file. sample_edges fuel jump mt hc schedules M seed = Some file)
        \<and> (\<forall>schedules file.
              sample_edges fuel jump mt hc schedules M seed = Some file \<longrightarrow>
              mset file = (\<Sum>buffers\<leftarrow>written. \<Sum>rows\<leftarrow>buffers. mset rows))
    | _ \<Rightarrow> \<forall>schedules. sample_edges fuel jump mt hc schedules M seed = None)"
proof (cases "generate_graph fuel jump mt hc M seed")
  case None
  then show ?thesis by (simp add: sample_edges_def)
next
  case (Some r)
  show ?thesis
  proof (cases r)
    case (Inl e)
    then show ?thesis using Some by (simp add: sample_edges_def)
  next
    case (Inr p)
    obtain node_file written where p: "p = (node_file, written)" by (cases p)
    have "sample_edges fuel jump mt hc (map (sequential 0) written) M seed
            = Some (concat (map concat written))"
      using Some Inr p by (simp add: sample_edges_def edge_file_sequential)
    then have ex: "\<exists>schedules file. sample_edges fuel jump mt hc schedules M seed = Some file"
      by blast
    have "mset out = (\<Sum>buffers\<leftarrow>written. \<Sum>rows\<leftarrow>buffers. mset rows)"
      if "sample_edges fuel jump mt hc schedules M seed = Some out" for schedules out
      using that Some Inr p by (simp add: sample_edges_def mset_edge_file)
    with ex show ?thesis
      using Some Inr p by simp
  qed
qed

text \<open>
  The theorem at \<open>strip_model 101\<close> with two workers, once with the rows of the first
  worker in front and once with those of the second: two different files of 101 rows
  with the same edges.
\<close>

theorem sample_edges_same_multiset_witness:
  "sample_edges 3 toy_jump toy_mt 3 [replicate 50 0 @ replicate 51 1] (strip_model 101) 0
     \<noteq> sample_edges 3 toy_jump toy_mt 3 [replicate 51 1 @ replicate 50 0] (strip_model 101) 0
   \<and> map_option mset
        (sample_edges 3 toy_jump toy_mt 3 [replicate 50 0 @ replicate 51 1] (strip_model 101) 0)
     = map_option mset
        (sample_edges 3 toy_jump toy_mt 3 [replicate 51 1 @ replicate 50 0] (strip_model 101) 0)
   \<and> map_option length
        (sample_edges 3 toy_jump toy_mt 3 [replicate 50 0 @ replicate 51 1] (strip_model 101) 0)
     = Some 101"
proof -
  let ?a = "sample_edges 3 toy_jump toy_mt 3 [replicate 50 0 @ replicate 51 1] (strip_model 101) 0"
  let ?b = "sample_edges 3 toy_jump toy_mt 3 [replicate 51 1 @ replicate 50 0] (strip_model 101) 0"
  have a: "map_option (\<lambda>f. (hd f, length f, (203, 1, ''E'') \<in> set f)) ?a
             = Some ((3, 1, ''E''), 101, False)"
    by (rule strip_101_three_cores)
  have b: "map_option (\<lambda>f. (hd f, length f)) ?b = Some ((204, 1, ''E''), 101)"
    by (rule strip_101_three_cores_swapped)
  from a obtain f1 where f1: "?a = Some f1" and h1: "hd f1 = (3, 1, ''E'')" and l1: "length f1 = 101"
    by auto
  from b obtain f2 where f2: "?b = Some f2" and h2: "hd f2 = (204, 1, ''E'')"
    by auto
  note t = sample_edges_same_multiset [of 3 toy_jump toy_mt 3 "strip_model 101" 0]
  have "mset f1 = mset f2"
  proof (cases "generate_graph 3 toy_jump toy_mt 3 (strip_model 101) 0")
    case None
    then show ?thesis using f1 by (simp add: sample_edges_def)
  next
    case (Some r)
    show ?thesis
    proof (cases r)
      case (Inl e)
      then show ?thesis using Some f1 by (simp add: sample_edges_def)
    next
      case (Inr p)
      obtain node_file written where "p = (node_file, written)" by (cases p)
      with t Some Inr have
        "\<forall>schedules file.
            sample_edges 3 toy_jump toy_mt 3 schedules (strip_model 101) 0 = Some file \<longrightarrow>
            mset file = (\<Sum>buffers\<leftarrow>written. \<Sum>rows\<leftarrow>buffers. mset rows)"
        by simp
      with f1 f2 show ?thesis by metis
    qed
  qed
  moreover have "f1 \<noteq> f2" using h1 h2 by auto
  ultimately show ?thesis unfolding f1 f2 by (simp add: l1)
qed

text \<open>
  Claim C3, as stated, fails: the edges depend on the number of threads.  On a machine
  with two hardware threads one worker samples all 101 blocks of \<open>strip_model 101\<close> with
  one generator; with three hardware threads the blocks from 50 on go to a second
  worker with a generator of its own.  With generators whose first distances are 2
  and 3, the edge of block 50 leaves the node 203 in the one run and the node 204 in
  the other.
\<close>

theorem threads_change_the_edges:
  "map_option (\<lambda>f. (length f, (203, 1, ''E'') \<in> set f))
     (sample_edges 3 toy_jump toy_mt 2 [replicate 101 0] (strip_model 101) 0)
     = Some (101, True)
   \<and> map_option (\<lambda>f. (length f, (203, 1, ''E'') \<in> set f))
     (sample_edges 3 toy_jump toy_mt 3 [replicate 50 0 @ replicate 51 1] (strip_model 101) 0)
     = Some (101, False)
   \<and> map_option mset
        (sample_edges 3 toy_jump toy_mt 2 [replicate 101 0] (strip_model 101) 0)
     \<noteq> map_option mset
        (sample_edges 3 toy_jump toy_mt 3 [replicate 50 0 @ replicate 51 1] (strip_model 101) 0)"
proof -
  let ?a = "sample_edges 3 toy_jump toy_mt 2 [replicate 101 0] (strip_model 101) 0"
  let ?b = "sample_edges 3 toy_jump toy_mt 3 [replicate 50 0 @ replicate 51 1] (strip_model 101) 0"
  have a: "map_option (\<lambda>f. (length f, (203, 1, ''E'') \<in> set f)) ?a = Some (101, True)"
    by (rule strip_101_two_cores)
  have "map_option (\<lambda>f. (hd f, length f, (203, 1, ''E'') \<in> set f)) ?b
          = Some ((3, 1, ''E''), 101, False)"
    by (rule strip_101_three_cores)
  then have b: "map_option (\<lambda>f. (length f, (203, 1, ''E'') \<in> set f)) ?b = Some (101, False)"
    by auto
  from a obtain f1 where f1: "?a = Some f1" and m1: "(203, 1, ''E'') \<in> set f1"
    by auto
  from b obtain f2 where f2: "?b = Some f2" and m2: "(203, 1, ''E'') \<notin> set f2"
    by auto
  have "mset f1 \<noteq> mset f2"
    using m1 m2 by (metis set_mset_mset)
  then have "map_option mset ?a \<noteq> map_option mset ?b"
    unfolding f1 f2 by simp
  with a b show ?thesis by simp
qed

section \<open>Multi-instance generation: the file names\<close>

text \<open>
  In a directory the instance number goes between the stem and the extension, and the
  directory stays.
\<close>

lemma takeWhile_rev_tail:
  "c \<notin> set ys \<Longrightarrow> takeWhile (\<lambda>x. x \<noteq> c) (rev ys @ c # zs) = rev ys"
  by (subst takeWhile_append2) auto

lemma filename_in_directory:
  assumes "CHR ''/'' \<notin> set f"
  shows "filename (dir @ CHR ''/'' # f) = f"
  using assms by (simp add: filename_def takeWhile_rev_tail)

lemma parent_path_in_directory:
  assumes "CHR ''/'' \<notin> set f" "dir \<noteq> []" "last dir \<noteq> CHR ''/''"
  shows "parent_path (dir @ CHR ''/'' # f) = dir"
proof -
  have d: "dropWhile (\<lambda>c. c = CHR ''/'') (rev dir) = rev dir"
    using assms(2,3) by (cases dir rule: rev_cases) auto
  have t: "take (length (dir @ CHR ''/'' # f) - length f) (dir @ CHR ''/'' # f) = dir @ ''/''"
    by simp
  show ?thesis
    unfolding parent_path_def filename_in_directory [OF assms(1)] Let_def t
    using assms(2) by (simp add: d)
qed

lemma extension_with_dot:
  assumes "CHR ''/'' \<notin> set name" "CHR ''/'' \<notin> set ext" "CHR ''.'' \<notin> set ext" "name \<noteq> []"
      and "name \<noteq> ''.''"
  shows "extension (dir @ CHR ''/'' # name @ CHR ''.'' # ext) = CHR ''.'' # ext"
proof -
  have f: "filename (dir @ CHR ''/'' # name @ CHR ''.'' # ext) = name @ CHR ''.'' # ext"
    using assms by (intro filename_in_directory) simp
  have t: "takeWhile (\<lambda>c. c \<noteq> CHR ''.'') (rev (name @ CHR ''.'' # ext)) = rev ext"
    using assms(3) takeWhile_rev_tail [of "CHR ''.''" ext "rev name"] by simp
  have n: "name @ CHR ''.'' # ext \<noteq> ''.''" "name @ CHR ''.'' # ext \<noteq> ''..''"
    using assms(3,4,5) by (auto simp: append_eq_Cons_conv Cons_eq_append_conv)
  show ?thesis
    unfolding extension_def f Let_def t using n assms(4) by simp
qed

lemma instance_file_in_directory:
  assumes "dir \<noteq> []" "last dir \<noteq> CHR ''/''"
      and "name \<noteq> []" "name \<noteq> ''.''" "CHR ''/'' \<notin> set name"
      and "CHR ''/'' \<notin> set ext" "CHR ''.'' \<notin> set ext"
  shows "instance_file (dir @ CHR ''/'' # name @ CHR ''.'' # ext) i
         = dir @ CHR ''/'' # name @ CHR ''_'' # to_string_size i @ CHR ''.'' # ext"
proof -
  have f: "filename (dir @ CHR ''/'' # name @ CHR ''.'' # ext) = name @ CHR ''.'' # ext"
    using assms by (intro filename_in_directory) simp
  have p: "parent_path (dir @ CHR ''/'' # name @ CHR ''.'' # ext) = dir"
    using assms by (intro parent_path_in_directory) simp_all
  have e: "extension (dir @ CHR ''/'' # name @ CHR ''.'' # ext) = CHR ''.'' # ext"
    using assms by (intro extension_with_dot) simp_all
  show ?thesis
    unfolding instance_file_def stem_def Let_def f p e by simp
qed

lemma upt_2: "[0..<2] = [0, Suc 0]"
  by (simp add: numeral_2_eq_2)
lemma names_bare:
  "instance_file ''nodes.tsv'' 0 = ''/nodes_0.tsv''"
  "instance_file ''nodes.tsv'' (Suc 0) = ''/nodes_1.tsv''"
  "instance_file ''edges.tsv'' 0 = ''/edges_0.tsv''"
  "instance_file ''edges.tsv'' (Suc 0) = ''/edges_1.tsv''"
  by code_simp+
lemma names_in_directory:
  "instance_file ''out/nodes.tsv'' 0 = ''out/nodes_0.tsv''"
  "instance_file ''out/nodes.tsv'' (Suc 0) = ''out/nodes_1.tsv''"
  "instance_file ''out/edges.tsv'' 0 = ''out/edges_0.tsv''"
  "instance_file ''out/edges.tsv'' (Suc 0) = ''out/edges_1.tsv''"
  by code_simp+

lemma two_instances_in_directory:
  "generate_calls rng_seeds k ''out/nodes.tsv'' ''out/edges.tsv'' 2 =
     [(''out/nodes_0.tsv'', ''out/edges_0.tsv'', rng_seeds k),
      (''out/nodes_1.tsv'', ''out/edges_1.tsv'', rng_seeds (k + 1))]"
  by (simp add: generate_calls_def upt_2 names_in_directory)

text \<open>
  Claim C9.  With \<open>n > 1\<close> the \<open>i\<close>-th sampler call writes to the given paths with \<open>_i\<close>
  appended to the stem, in the same directory and with the same extension.  For a path
  without a directory part \<^verbatim>\<open>parent_path()\<close> is empty, and the \<^verbatim>\<open>'/'\<close> that \<^verbatim>\<open>main\<close> puts
  behind it makes the name absolute: \<^verbatim>\<open>nodes.tsv\<close> becomes \<^verbatim>\<open>/nodes_0.tsv\<close>, a file in the
  root directory.
\<close>

theorem bare_file_names_go_to_the_root:
  "generate_calls rng_seeds k ''nodes.tsv'' ''edges.tsv'' 2 =
     [(''/nodes_0.tsv'', ''/edges_0.tsv'', rng_seeds k),
      (''/nodes_1.tsv'', ''/edges_1.tsv'', rng_seeds (k + 1))]"
  by (simp add: generate_calls_def upt_2 names_bare)

section \<open>Reading an M1 file\<close>

lemma clean_Cons:
  "clean (raw # raws) = (if strip_cr raw = [] then clean raws else strip_cr raw # clean raws)"
  by (simp add: clean_def)

lemma section_lines_Cons:
  "section_lines w m (l # ls) =
     (if starts_with ''#'' l then section_lines w (directive_mode l) ls
      else if m = w then l # section_lines w m ls else section_lines w m ls)"
  by (simp add: section_lines_def)

lemma section_lines_Nil [simp]: "section_lines w m [] = []"
  by (simp add: section_lines_def)

lemma dispatch_mode:
  "dispatch stold stof st l = Inr st' \<Longrightarrow>
   mode st' = (if starts_with ''#'' l then directive_mode l else mode st)"
  by (auto simp: dispatch_def read_directive_def directive_mode_def read_meta_def read_nodes_def
      read_edges_def save_blocks_def Let_def
      split: if_splits ReaderMode.splits option.splits prod.splits)

lemma dispatch_fails_iff:
  "(\<exists>e. dispatch stold stof st l = Inl e) \<longleftrightarrow>
     (starts_with ''#'' l \<and> \<not> known_directive l) \<or> (\<not> starts_with ''#'' l \<and> mode st = NONE)"
  by (auto simp: dispatch_def read_directive_def known_directive_def split: ReaderMode.splits)

lemma read_lines_fails_iff:
  "(\<exists>e. read_lines stold stof st raws = Inl e) \<longleftrightarrow> malformed (mode st) (clean raws)"
proof (induction raws arbitrary: st)
  case Nil
  then show ?case by (simp add: malformed_def clean_def)
next
  case (Cons raw raws)
  show ?case
  proof (cases "strip_cr raw = []")
    case True
    then show ?thesis
      using Cons.IH [of st] by (simp add: read_line_def clean_Cons)
  next
    case False
    show ?thesis
    proof (cases "dispatch stold stof st (strip_cr raw)")
      case (Inl e)
      then have "(starts_with ''#'' (strip_cr raw) \<and> \<not> known_directive (strip_cr raw))
          \<or> (\<not> starts_with ''#'' (strip_cr raw) \<and> mode st = NONE)"
        using dispatch_fails_iff [of stold stof st "strip_cr raw"] by auto
      then have "malformed (mode st) (strip_cr raw # clean raws)"
        by (auto simp: malformed_def section_lines_Cons)
      then show ?thesis
        using Inl False by (simp add: read_line_def clean_Cons)
    next
      case (Inr st')
      then have ok: "\<not> ((starts_with ''#'' (strip_cr raw) \<and> \<not> known_directive (strip_cr raw))
          \<or> (\<not> starts_with ''#'' (strip_cr raw) \<and> mode st = NONE))"
        using dispatch_fails_iff [of stold stof st "strip_cr raw"] by auto
      have m: "mode st' = (if starts_with ''#'' (strip_cr raw) then directive_mode (strip_cr raw) else mode st)"
        using Inr by (rule dispatch_mode)
      have "malformed (mode st) (strip_cr raw # clean raws) \<longleftrightarrow> malformed (mode st') (clean raws)"
        using ok m by (auto simp: malformed_def section_lines_Cons)
      then show ?thesis
        using Inr False Cons.IH [of st'] by (simp add: read_line_def clean_Cons)
    qed
  qed
qed

lemma section_lines_single:
  "section_lines w m [l] = (if starts_with ''#'' l then [] else if m = w then [l] else [])"
  by (simp add: section_lines_Cons)

lemma section_lines_split:
  "section_lines w m (l # ls) =
     section_lines w m [l]
     @ section_lines w (if starts_with ''#'' l then directive_mode l else m) ls"
  by (simp add: section_lines_Cons)

lemma parsed_split:
  "parsed_nodes stold m (l # ls) =
     parsed_nodes stold m [l]
     @ parsed_nodes stold (if starts_with ''#'' l then directive_mode l else m) ls"
  "parsed_blocks stold stof m (l # ls) =
     parsed_blocks stold stof m [l]
     @ parsed_blocks stold stof (if starts_with ''#'' l then directive_mode l else m) ls"
  "parsed_names m (l # ls) =
     parsed_names m [l] @ parsed_names (if starts_with ''#'' l then directive_mode l else m) ls"
  "parsed_values m (l # ls) =
     parsed_values m [l] @ parsed_values (if starts_with ''#'' l then directive_mode l else m) ls"
  unfolding parsed_nodes_def parsed_blocks_def parsed_meta_def parsed_names_def parsed_values_def
  by (subst section_lines_split, simp add: map_filter_def)+

lemma parsed_single_directive:
  assumes "starts_with ''#'' l"
  shows "parsed_nodes stold m [l] = []" "parsed_blocks stold stof m [l] = []"
    "parsed_names m [l] = []" "parsed_values m [l] = []"
  using assms
  by (simp_all add: parsed_nodes_def parsed_blocks_def parsed_meta_def parsed_names_def
      parsed_values_def section_lines_single map_filter_def)

lemma parsed_single_data:
  assumes "\<not> starts_with ''#'' l"
  shows "parsed_nodes stold m [l] =
           (if m = NODES then (case parse_node stold l of None \<Rightarrow> [] | Some r \<Rightarrow> [r]) else [])"
    "parsed_blocks stold stof m [l] =
           (if m = EDGES then (case parse_block stold stof l of None \<Rightarrow> [] | Some b \<Rightarrow> [b]) else [])"
    "parsed_names m [l] =
           (if m = META \<and> fst (split_at CHR ''='' l) = ''NAME'' \<and> snd (split_at CHR ''='' l) \<noteq> []
            then [snd (split_at CHR ''='' l)] else [])"
    "parsed_values m [l] =
           (if m = META \<and> fst (split_at CHR ''='' l) \<noteq> ''NAME'' \<and> fst (split_at CHR ''='' l) \<noteq> []
               \<and> snd (split_at CHR ''='' l) \<noteq> []
            then [split_at CHR ''='' l] else [])"
  using assms
  by (auto simp: parsed_nodes_def parsed_blocks_def parsed_meta_def parsed_names_def
      parsed_values_def section_lines_single map_filter_def split: option.splits prod.splits)

lemma read_directive_result:
  assumes "read_directive st l = Inr st'"
  shows "nodes (result st') = nodes (result st)" "has_node st' = has_node st"
    "all_blocks st' = all_blocks st" "edges_ok st \<Longrightarrow> edges_ok st'"
    "meta (result st') = meta (result st)" "has_meta st' = has_meta st"
  using assms
  by (auto simp: read_directive_def save_blocks_def all_blocks_def edges_ok_def
      split: if_splits)

lemma read_meta_result:
  assumes "\<not> starts_with ''#'' l"
  shows "nodes (result (read_meta st l)) = nodes (result st)"
    "has_node (read_meta st l) = has_node st"
    "all_blocks (read_meta st l) = all_blocks st"
    "edges_ok (read_meta st l) = edges_ok st"
    "meta_values (meta (result (read_meta st l))) =
       rev (parsed_values META [l]) @ meta_values (meta (result st))"
    "meta_name (meta (result (read_meta st l))) =
       (if parsed_names META [l] = [] then meta_name (meta (result st))
        else last (parsed_names META [l]))"
    "has_meta (read_meta st l) = (has_meta st \<or> parsed_names META [l] \<noteq> [])"
  using assms
  by (auto simp: read_meta_def all_blocks_def edges_ok_def parsed_single_data map_set_def
      split: prod.splits)

lemma read_nodes_result:
  assumes "\<not> starts_with ''#'' l"
  shows "nodes (result (read_nodes stold st l)) = nodes (result st) @ parsed_nodes stold NODES [l]"
    "has_node (read_nodes stold st l) = (has_node st \<or> parsed_nodes stold NODES [l] \<noteq> [])"
    "all_blocks (read_nodes stold st l) = all_blocks st"
    "edges_ok (read_nodes stold st l) = edges_ok st"
    "meta (result (read_nodes stold st l)) = meta (result st)"
    "has_meta (read_nodes stold st l) = has_meta st"
  using assms
  by (auto simp: read_nodes_def all_blocks_def edges_ok_def parsed_single_data
      split: option.splits)

lemma read_edges_result:
  assumes "\<not> starts_with ''#'' l"
  shows "nodes (result (read_edges stold stof st l)) = nodes (result st)"
    "has_node (read_edges stold stof st l) = has_node st"
    "all_blocks (read_edges stold stof st l) = all_blocks st @ parsed_blocks stold stof EDGES [l]"
    "edges_ok (read_edges stold stof st l) = edges_ok st"
    "meta (result (read_edges stold stof st l)) = meta (result st)"
    "has_meta (read_edges stold stof st l) = has_meta st"
  using assms
  by (auto simp: read_edges_def all_blocks_def edges_ok_def parsed_single_data
      split: option.splits)

lemma dispatch_step:
  assumes "dispatch stold stof st l = Inr st'"
  shows "nodes (result st') = nodes (result st) @ parsed_nodes stold (mode st) [l]
    \<and> has_node st' = (has_node st \<or> parsed_nodes stold (mode st) [l] \<noteq> [])
    \<and> all_blocks st' = all_blocks st @ parsed_blocks stold stof (mode st) [l]
    \<and> (edges_ok st \<longrightarrow> edges_ok st')
    \<and> meta_values (meta (result st')) =
         rev (parsed_values (mode st) [l]) @ meta_values (meta (result st))
    \<and> meta_name (meta (result st')) =
         (if parsed_names (mode st) [l] = [] then meta_name (meta (result st))
          else last (parsed_names (mode st) [l]))
    \<and> has_meta st' = (has_meta st \<or> parsed_names (mode st) [l] \<noteq> [])"
proof (cases "starts_with ''#'' l")
  case True
  then have "read_directive st l = Inr st'"
    using assms by (simp add: dispatch_def)
  from read_directive_result [OF this] True show ?thesis
    by (simp add: parsed_single_directive)
next
  case False
  show ?thesis
  proof (cases "mode st")
    case NONE
    then show ?thesis using assms False by (simp add: dispatch_def)
  next
    case META
    then have "st' = read_meta st l" using assms False by (simp add: dispatch_def)
    then show ?thesis
      using META read_meta_result [OF False, of st] parsed_single_data [OF False, where m = META]
      by simp
  next
    case NODES
    then have "st' = read_nodes stold st l" using assms False by (simp add: dispatch_def)
    then show ?thesis
      using NODES read_nodes_result [OF False, of stold st]
        parsed_single_data [OF False, where m = NODES]
      by simp
  next
    case EDGES
    then have "st' = read_edges stold stof st l" using assms False by (simp add: dispatch_def)
    then show ?thesis
      using EDGES read_edges_result [OF False, of stold stof st]
        parsed_single_data [OF False, where m = EDGES]
      by simp
  qed
qed

lemma read_lines_result:
  assumes "read_lines stold stof st raws = Inr st'"
  shows "nodes (result st') = nodes (result st) @ parsed_nodes stold (mode st) (clean raws)
    \<and> has_node st' = (has_node st \<or> parsed_nodes stold (mode st) (clean raws) \<noteq> [])
    \<and> all_blocks st' = all_blocks st @ parsed_blocks stold stof (mode st) (clean raws)
    \<and> (edges_ok st \<longrightarrow> edges_ok st')
    \<and> meta_values (meta (result st')) =
         rev (parsed_values (mode st) (clean raws)) @ meta_values (meta (result st))
    \<and> meta_name (meta (result st')) =
         (if parsed_names (mode st) (clean raws) = [] then meta_name (meta (result st))
          else last (parsed_names (mode st) (clean raws)))
    \<and> has_meta st' = (has_meta st \<or> parsed_names (mode st) (clean raws) \<noteq> [])"
  using assms
proof (induction raws arbitrary: st)
  case Nil
  then show ?case
    by (simp add: clean_def parsed_nodes_def parsed_blocks_def parsed_names_def
        parsed_values_def parsed_meta_def map_filter_def)
next
  case (Cons raw raws)
  show ?case
  proof (cases "strip_cr raw = []")
    case True
    then show ?thesis
      using Cons.IH [of st] Cons.prems by (simp add: read_line_def clean_Cons)
  next
    case False
    define l where "l = strip_cr raw"
    from Cons.prems False obtain st1 where
      d: "dispatch stold stof st l = Inr st1" and
      r: "read_lines stold stof st1 raws = Inr st'"
      by (auto simp: read_line_def l_def split: sum.splits)
    have m: "mode st1 = (if starts_with ''#'' l then directive_mode l else mode st)"
      using d by (rule dispatch_mode)
    have c: "clean (raw # raws) = l # clean raws"
      using False by (simp add: clean_Cons l_def)
    note step = dispatch_step [OF d]
    note rest = Cons.IH [OF r, unfolded m]
    show ?thesis
      unfolding c parsed_split [where l = l and ls = "clean raws"]
      using step rest by (auto simp: m)
  qed
qed

lemma initial_state_simps:
  "mode initial_state = NONE" "all_blocks initial_state = []" "edges_ok initial_state"
  "nodes (result initial_state) = []" "\<not> has_node initial_state" "\<not> has_meta initial_state"
  "meta_values (meta (result initial_state)) = []"
  by (simp_all add: initial_state_def all_blocks_def edges_ok_def)

lemma save_blocks_result:
  "concat (map blocks (edges (result (save_blocks st)))) = all_blocks st"
  "edges_ok st \<Longrightarrow> edges_ok (save_blocks st)"
  "nodes (result (save_blocks st)) = nodes (result st)"
  "meta (result (save_blocks st)) = meta (result st)"
  "has_node (save_blocks st) = has_node st"
  "has_meta (save_blocks st) = has_meta st"
  by (auto simp: save_blocks_def all_blocks_def edges_ok_def)

lemma edges_ok_has_edges:
  "edges_ok st \<Longrightarrow> has_edges st \<longleftrightarrow> concat (map blocks (edges (result st))) \<noteq> []"
  by (cases "edges (result st)") (auto simp: edges_ok_def)

lemma toy_file_reads: "read_m1_file toy_stold toy_stold toy_file = Inr tiny_model"
  by code_simp

subsection \<open>The edge records, section by section\<close>

lemma map_filter_Cons:
  "List.map_filter f (x # xs) = (case f x of None \<Rightarrow> [] | Some y \<Rightarrow> [y]) @ List.map_filter f xs"
  by (simp add: map_filter_def split: option.splits)

lemma section_record_Cons:
  "section_record stold stof t bs (l # rows) =
     section_record stold stof t
       (bs @ (case parse_block stold stof l of None \<Rightarrow> [] | Some b \<Rightarrow> [b])) rows"
  by (cases "parse_block stold stof l") (simp_all add: section_record_def map_filter_def)

lemma section_record_Nil:
  "section_record stold stof t bs [] = (if bs = [] then [] else [\<lparr>edge_type = t, blocks = bs\<rparr>])"
  by (simp add: section_record_def map_filter_def)

lemma parsed_records_Cons:
  "parsed_records stold stof (l # ls) =
     (if starts_with ''# EDGES'' l
      then section_record stold stof (heading_type l) []
             (takeWhile (\<lambda>x. \<not> starts_with ''#'' x) ls)
           @ parsed_records stold stof ls
      else parsed_records stold stof ls)"
  by (simp add: parsed_records_def)

lemma directive_is_marked: "starts_with ''# EDGES'' l \<Longrightarrow> starts_with ''#'' l"
  by (cases l) (auto simp: starts_with_def)

lemma starts_with_third:
  assumes "starts_with p l" and "3 \<le> length p"
  shows "take 3 l = take 3 p"
proof -
  have "take 3 (take (length p) l) = take 3 p"
    using assms(1) by (simp add: starts_with_def)
  then show ?thesis
    using assms(2) by (simp add: min_def)
qed

lemma other_directives:
  "starts_with ''# META'' l \<Longrightarrow> \<not> starts_with ''# EDGES'' l"
  "starts_with ''# NODES'' l \<Longrightarrow> \<not> starts_with ''# EDGES'' l"
  using starts_with_third [of "''# META''" l] starts_with_third [of "''# NODES''" l]
    starts_with_third [of "''# EDGES''" l]
  by auto

lemma save_blocks_edges:
  "edges (result (save_blocks st)) =
     edges (result st) @ section_record stold stof (current_edge_type st) (current_blocks st) []"
  by (simp add: save_blocks_def section_record_Nil)

lemma read_directive_records:
  assumes "read_directive st l = Inr st1"
  shows "edges (result st1) @ open_record stold stof st1 ls @ parsed_records stold stof ls =
         edges (result st) @ open_record stold stof st (l # ls) @ parsed_records stold stof (l # ls)"
proof -
  from assms have known: "known_directive l"
    by (auto simp: read_directive_def known_directive_def split: if_splits)
  then have marked: "starts_with ''#'' l"
    by (cases l) (auto simp: known_directive_def starts_with_def)
  have before: "open_record stold stof st (l # ls) =
      section_record stold stof (current_edge_type st) (current_blocks st) []"
    using marked by (simp add: open_record_def)
  show ?thesis
  proof (cases "starts_with ''# META'' l \<or> starts_with ''# NODES'' l")
    case True
    then have e: "\<not> starts_with ''# EDGES'' l"
      using other_directives by blast
    from True assms have "edges (result st1) = edges (result st)"
      "current_edge_type st1 = current_edge_type st" "current_blocks st1 = current_blocks st"
      "mode st1 \<noteq> EDGES"
      by (auto simp: read_directive_def split: if_splits)
    then have "open_record stold stof st1 ls =
        section_record stold stof (current_edge_type st) (current_blocks st) []"
      by (simp add: open_record_def)
    then show ?thesis
      using \<open>edges (result st1) = edges (result st)\<close> e
      by (simp add: before parsed_records_Cons)
  next
    case False
    then have e: "starts_with ''# EDGES'' l"
      using known by (simp add: known_directive_def)
    from False e assms have st1: "st1 = (save_blocks st)
               \<lparr>mode := EDGES, current_edge_type := heading_type l, current_blocks := []\<rparr>"
      by (simp add: read_directive_def heading_type_def)
    have "edges (result st1) =
        edges (result st) @ section_record stold stof (current_edge_type st) (current_blocks st) []"
      unfolding st1 using save_blocks_edges [of st stold stof] by simp
    moreover have "open_record stold stof st1 ls =
        section_record stold stof (heading_type l) [] (takeWhile (\<lambda>x. \<not> starts_with ''#'' x) ls)"
      unfolding st1 by (simp add: open_record_def)
    ultimately show ?thesis
      using e by (simp add: before parsed_records_Cons)
  qed
qed

lemma read_data_records:
  assumes "\<not> starts_with ''#'' l" and "dispatch stold stof st l = Inr st1"
  shows "edges (result st1) @ open_record stold stof st1 ls @ parsed_records stold stof ls =
         edges (result st) @ open_record stold stof st (l # ls) @ parsed_records stold stof (l # ls)"
proof -
  have e: "\<not> starts_with ''# EDGES'' l"
    using assms(1) directive_is_marked by blast
  show ?thesis
  proof (cases "mode st")
    case NONE
    then show ?thesis using assms by (simp add: dispatch_def)
  next
    case META
    then have "st1 = read_meta st l" using assms by (simp add: dispatch_def)
    then have "edges (result st1) = edges (result st)"
      "current_edge_type st1 = current_edge_type st" "current_blocks st1 = current_blocks st"
      "mode st1 = META"
      using META by (auto simp: read_meta_def split: prod.splits)
    then show ?thesis
      using META e by (simp add: open_record_def parsed_records_Cons)
  next
    case NODES
    then have "st1 = read_nodes stold st l" using assms by (simp add: dispatch_def)
    then have "edges (result st1) = edges (result st)"
      "current_edge_type st1 = current_edge_type st" "current_blocks st1 = current_blocks st"
      "mode st1 = NODES"
      using NODES by (auto simp: read_nodes_def split: option.splits)
    then show ?thesis
      using NODES e by (simp add: open_record_def parsed_records_Cons)
  next
    case EDGES
    then have "st1 = read_edges stold stof st l" using assms by (simp add: dispatch_def)
    then have "edges (result st1) = edges (result st)"
      "current_edge_type st1 = current_edge_type st"
      "current_blocks st1 =
         current_blocks st @ (case parse_block stold stof l of None \<Rightarrow> [] | Some b \<Rightarrow> [b])"
      "mode st1 = EDGES"
      using EDGES by (auto simp: read_edges_def split: option.splits)
    then show ?thesis
      using EDGES e assms(1)
      by (simp add: open_record_def parsed_records_Cons section_record_Cons)
  qed
qed

lemma read_lines_records:
  assumes "read_lines stold stof st raws = Inr st'"
  shows "edges (result (save_blocks st')) =
         edges (result st) @ open_record stold stof st (clean raws)
         @ parsed_records stold stof (clean raws)"
  using assms
proof (induction raws arbitrary: st)
  case Nil
  then show ?case
    using save_blocks_edges [of st stold stof]
    by (simp add: clean_def open_record_def parsed_records_def)
next
  case (Cons raw raws)
  show ?case
  proof (cases "strip_cr raw = []")
    case True
    then show ?thesis
      using Cons.IH [of st] Cons.prems by (simp add: read_line_def clean_Cons)
  next
    case False
    define l where "l = strip_cr raw"
    from Cons.prems False obtain st1 where
      d: "dispatch stold stof st l = Inr st1" and
      r: "read_lines stold stof st1 raws = Inr st'"
      by (auto simp: read_line_def l_def split: sum.splits)
    have c: "clean (raw # raws) = l # clean raws"
      using False by (simp add: clean_Cons l_def)
    have step: "edges (result st1) @ open_record stold stof st1 (clean raws)
          @ parsed_records stold stof (clean raws) =
        edges (result st) @ open_record stold stof st (l # clean raws)
          @ parsed_records stold stof (l # clean raws)"
    proof (cases "starts_with ''#'' l")
      case True
      then have "read_directive st l = Inr st1"
        using d by (simp add: dispatch_def)
      then show ?thesis by (rule read_directive_records)
    next
      case False
      then show ?thesis using d by (rule read_data_records)
    qed
    show ?thesis
      unfolding c using Cons.IH [OF r] step by simp
  qed
qed

lemma read_m1_file_records:
  assumes "read_m1_file stold stof content = Inr M"
  shows "edges M = parsed_records stold stof (file_lines content)"
proof -
  from assms obtain st where
    r: "read_lines stold stof initial_state (getlines content) = Inr st" and
    M: "M = result (save_blocks st)"
    by (auto simp: read_m1_file_def Let_def split: sum.splits if_splits)
  have "open_record stold stof initial_state ls = []" for ls
    by (simp add: open_record_def initial_state_def section_record_Nil)
  then show ?thesis
    using read_lines_records [OF r] by (simp add: M file_lines_def initial_state_def)
qed

text \<open>
  Claim C7, with the other fatal cases.  A file that cannot be opened is fatal.  Reading
  the content of a file is fatal exactly when a line that starts with \<^verbatim>\<open>#\<close> is none of
  the three directives, or a data line stands before the first directive, or the file
  holds no complete \<^verbatim>\<open>NAME\<close> entry, no valid node row or no valid block row.  Incomplete
  and unreadable data lines are left out and are not fatal by themselves.  When the
  reader returns, the model holds exactly the rows that could be read: the name is the
  last \<^verbatim>\<open>NAME\<close> value, the other meta entries are those of the META rows (the last one
  of a key first), the node records are the valid NODES rows in their order, and the
  edge records are those of the \<^verbatim>\<open># EDGES\<close> sections in their order, each with the type
  of its directive and the valid rows of its section; a section without a valid row
  gives no record.
\<close>

theorem read_m1_file_fatal_iff:
  "(files file_name = None \<longrightarrow>
      open_m1_file files stold stof file_name = Inl (Cannot_Open file_name))
   \<and> (\<forall>content. files file_name = Some content \<longrightarrow>
        open_m1_file files stold stof file_name = read_m1_file stold stof content
        \<and> ((\<exists>e. read_m1_file stold stof content = Inl e) \<longleftrightarrow>
              malformed NONE (file_lines content)
              \<or> parsed_names NONE (file_lines content) = []
              \<or> parsed_nodes stold NONE (file_lines content) = []
              \<or> parsed_blocks stold stof NONE (file_lines content) = [])
        \<and> (\<forall>M. read_m1_file stold stof content = Inr M \<longrightarrow>
              meta_name (meta M) = last (parsed_names NONE (file_lines content))
            \<and> meta_values (meta M) = rev (parsed_values NONE (file_lines content))
            \<and> nodes M = parsed_nodes stold NONE (file_lines content)
            \<and> edges M = parsed_records stold stof (file_lines content)
            \<and> concat (map blocks (edges M)) = parsed_blocks stold stof NONE (file_lines content)
            \<and> (\<forall>r \<in> set (edges M). blocks r \<noteq> [])))"
proof -
  have content:
    "((\<exists>e. read_m1_file stold stof content = Inl e) \<longleftrightarrow>
        malformed NONE (file_lines content)
        \<or> parsed_names NONE (file_lines content) = []
        \<or> parsed_nodes stold NONE (file_lines content) = []
        \<or> parsed_blocks stold stof NONE (file_lines content) = [])
     \<and> (\<forall>M. read_m1_file stold stof content = Inr M \<longrightarrow>
            meta_name (meta M) = last (parsed_names NONE (file_lines content))
          \<and> meta_values (meta M) = rev (parsed_values NONE (file_lines content))
          \<and> nodes M = parsed_nodes stold NONE (file_lines content)
          \<and> concat (map blocks (edges M)) = parsed_blocks stold stof NONE (file_lines content)
          \<and> (\<forall>r \<in> set (edges M). blocks r \<noteq> []))" for content
  proof (cases "read_lines stold stof initial_state (getlines content)")
    case (Inl e)
    then have "malformed NONE (file_lines content)"
      using read_lines_fails_iff [of stold stof initial_state "getlines content"]
      by (auto simp: initial_state_simps file_lines_def)
    then show ?thesis
      using Inl by (simp add: read_m1_file_def)
  next
    case (Inr st)
    then have ok: "\<not> malformed NONE (file_lines content)"
      using read_lines_fails_iff [of stold stof initial_state "getlines content"]
      by (auto simp: initial_state_simps file_lines_def)
    note r = read_lines_result [OF Inr, unfolded initial_state_simps, folded file_lines_def]
    have eo: "edges_ok (save_blocks st)"
      using r initial_state_simps(3) by (simp add: save_blocks_result)
    have he: "has_edges (save_blocks st) \<longleftrightarrow> parsed_blocks stold stof NONE (file_lines content) \<noteq> []"
      using edges_ok_has_edges [OF eo] r by (simp add: save_blocks_result)
    have nonempty: "\<forall>r \<in> set (edges (result (save_blocks st))). blocks r \<noteq> []"
      using eo by (simp add: edges_ok_def)
    show ?thesis
      using Inr ok r he nonempty
      by (auto simp: read_m1_file_def Let_def save_blocks_result initial_state_simps)
  qed
  show ?thesis
    using content read_m1_file_records [of stold stof]
    by (auto simp: open_m1_file_def)
qed

text \<open>The theorem at the text of \<^const>\<open>tiny_model\<close>, and at a file that is not there.\<close>

theorem read_m1_file_fatal_iff_witness:
  "toy_files ''tiny.m1'' = Some toy_file
   \<and> open_m1_file toy_files toy_stold toy_stold ''tiny.m1'' = Inr tiny_model
   \<and> meta_name (meta tiny_model) = last (parsed_names NONE (file_lines toy_file))
   \<and> meta_values (meta tiny_model) = rev (parsed_values NONE (file_lines toy_file))
   \<and> nodes tiny_model = parsed_nodes toy_stold NONE (file_lines toy_file)
   \<and> edges tiny_model = parsed_records toy_stold toy_stold (file_lines toy_file)
   \<and> \<not> malformed NONE (file_lines toy_file)
   \<and> toy_files ''none.m1'' = None
   \<and> open_m1_file toy_files toy_stold toy_stold ''none.m1'' = Inl (Cannot_Open ''none.m1'')"
proof -
  have f: "toy_files ''tiny.m1'' = Some toy_file" "toy_files ''none.m1'' = None"
    by (simp_all add: toy_files_def)
  from read_m1_file_fatal_iff [of toy_files "''tiny.m1''" toy_stold toy_stold] f(1)
  have a: "open_m1_file toy_files toy_stold toy_stold ''tiny.m1''
             = read_m1_file toy_stold toy_stold toy_file"
    and b: "(\<exists>e. read_m1_file toy_stold toy_stold toy_file = Inl e) \<longleftrightarrow>
              malformed NONE (file_lines toy_file)
              \<or> parsed_names NONE (file_lines toy_file) = []
              \<or> parsed_nodes toy_stold NONE (file_lines toy_file) = []
              \<or> parsed_blocks toy_stold toy_stold NONE (file_lines toy_file) = []"
    and c: "\<forall>M. read_m1_file toy_stold toy_stold toy_file = Inr M \<longrightarrow>
              meta_name (meta M) = last (parsed_names NONE (file_lines toy_file))
            \<and> meta_values (meta M) = rev (parsed_values NONE (file_lines toy_file))
            \<and> nodes M = parsed_nodes toy_stold NONE (file_lines toy_file)
            \<and> edges M = parsed_records toy_stold toy_stold (file_lines toy_file)
            \<and> concat (map blocks (edges M)) = parsed_blocks toy_stold toy_stold NONE (file_lines toy_file)
            \<and> (\<forall>r \<in> set (edges M). blocks r \<noteq> [])"
    by blast+
  from read_m1_file_fatal_iff [of toy_files "''none.m1''" toy_stold toy_stold] f(2)
  have d: "open_m1_file toy_files toy_stold toy_stold ''none.m1'' = Inl (Cannot_Open ''none.m1'')"
    by blast
  show ?thesis
    using f a b c d toy_file_reads by auto
qed

text \<open>
  Claim C7, as stated, fails: a file with a name, a valid node row and a valid block
  row is rejected when a comment line follows them.
\<close>

theorem unknown_directive_is_fatal:
  "read_m1_file toy_stold toy_stold (toy_file @ ''#x'') = Inl (Unexpected_Directive ''#x'')
   \<and> parsed_names NONE (file_lines (toy_file @ ''#x'')) = [''tiny'']
   \<and> parsed_nodes toy_stold NONE (file_lines (toy_file @ ''#x''))
       = [\<lparr>startID = 0, endID = 3, node_type = ''A''\<rparr>]
   \<and> parsed_blocks toy_stold toy_stold NONE (file_lines (toy_file @ ''#x''))
       = [\<lparr>startX = 0, endX = 3, startY = 0, endY = 3, expression_probability = 1 / 3\<rparr>]"
  by code_simp

section \<open>Writing a model and reading it back\<close>

subsection \<open>The writer writes the lines of the model\<close>

lemma unlines_simps [simp]:
  "unlines [] = []" "unlines (l # ls) = l @ CHR 0x0A # unlines ls"
  "unlines (xs @ ys) = unlines xs @ unlines ys"
  by (simp_all add: unlines_def)

lemma getlines_unlines:
  "\<forall>l \<in> set ls. CHR 0x0A \<notin> set l \<Longrightarrow> getlines (unlines ls) = ls"
proof (induction ls)
  case Nil
  then show ?case by (simp add: getlines.simps)
next
  case (Cons l ls)
  then have l: "CHR 0x0A \<notin> set l" and rest: "getlines (unlines ls) = ls"
    by simp_all
  have t: "takeWhile (\<lambda>c. c \<noteq> CHR 0x0A) (l @ CHR 0x0A # unlines ls) = l"
    using l by (subst takeWhile_append2) auto
  have d: "dropWhile (\<lambda>c. c \<noteq> CHR 0x0A) (l @ CHR 0x0A # unlines ls) = CHR 0x0A # unlines ls"
    using l by (subst dropWhile_append2) auto
  show ?case
    by (subst getlines.simps) (simp add: t d rest)
qed

lemma split_at_found: "c \<notin> set a \<Longrightarrow> split_at c (a @ c # rest) = (a, rest)"
proof -
  assume a: "c \<notin> set a"
  have "takeWhile (\<lambda>x. x \<noteq> c) (a @ c # rest) = a"
    using a by (subst takeWhile_append2) auto
  moreover have "dropWhile (\<lambda>x. x \<noteq> c) (a @ c # rest) = c # rest"
    using a by (subst dropWhile_append2) auto
  ultimately show ?thesis by (simp add: split_at_def)
qed

lemma write_meta_lines:
  "list_all entry_survives items \<Longrightarrow> write_meta items = Inr (unlines (map entry_line items))"
  by (induction items) (auto simp: entry_survives_def entry_line_def bindE_def line_text_def)

lemma write_nodes_lines:
  "list_all (node_survives to_string stold) ns \<Longrightarrow>
   write_nodes to_string ns = Inr (unlines (map (node_line to_string) ns))"
  by (induction ns) (auto simp: node_survives_def node_line_def bindE_def line_text_def)

lemma write_blocks_lines:
  "concat (map (write_block to_string to_string_f) bs)
   = unlines (map (block_line to_string to_string_f) bs)"
  by (induction bs) (simp_all add: write_block_def block_line_def)

lemma write_edges_lines:
  "list_all (record_survives to_string to_string_f stold stof) rs \<Longrightarrow>
   write_edges to_string to_string_f rs
   = Inr (unlines (concat (map (record_lines to_string to_string_f) rs)))"
  by (induction rs)
    (auto simp: record_survives_def record_lines_def bindE_def line_text_def write_blocks_lines)

lemma write_m1_file_lines:
  assumes "model_survives to_string to_string_f stold stof M"
  shows "write_m1_file to_string to_string_f M = Inr (unlines (model_lines to_string to_string_f M))"
proof -
  have m: "write_meta (map_items (meta_values (meta M)))
           = Inr (unlines (map entry_line (map_items (meta_values (meta M)))))"
    using assms by (intro write_meta_lines) (simp add: model_survives_def)
  have n: "write_nodes to_string (nodes M) = Inr (unlines (map (node_line to_string) (nodes M)))"
    using assms by (intro write_nodes_lines [where stold = stold]) (simp add: model_survives_def)
  have e: "write_edges to_string to_string_f (edges M)
           = Inr (unlines (concat (map (record_lines to_string to_string_f) (edges M))))"
    using assms
    by (intro write_edges_lines [where stold = stold and stof = stof])
      (simp add: model_survives_def)
  show ?thesis
    by (simp add: write_m1_file_def m n e bindE_def model_lines_def)
qed

subsection \<open>Reading the lines back\<close>

lemma read_lines_append:
  "read_lines stold stof st (xs @ ys) =
     (case read_lines stold stof st xs of
        Inl e \<Rightarrow> Inl e
      | Inr st' \<Rightarrow> read_lines stold stof st' ys)"
  by (induction xs arbitrary: st) (auto split: sum.splits)

lemma strip_cr_line_text: "line_text l \<Longrightarrow> strip_cr l = l"
  by (auto simp: line_text_def strip_cr_def)

lemma read_line_text:
  "line_text l \<Longrightarrow> l \<noteq> [] \<Longrightarrow> read_line stold stof st l = dispatch stold stof st l"
  by (simp add: read_line_def strip_cr_line_text)

lemma read_line_empty: "read_line stold stof st [] = Inr st"
  by (simp add: read_line_def strip_cr_def)

lemma line_text_append: "line_text b \<Longrightarrow> b \<noteq> [] \<Longrightarrow> CHR 0x0A \<notin> set a \<Longrightarrow> line_text (a @ b)"
  by (simp add: line_text_def)

lemma entry_line_read:
  assumes "entry_survives e" "mode st = META"
  shows "read_line stold stof st (entry_line e)
         = Inr (st\<lparr>result := (result st)\<lparr>meta := (meta (result st))
                  \<lparr>meta_values := e # meta_values (meta (result st))\<rparr>\<rparr>\<rparr>)"
proof -
  obtain k v where e: "e = (k, v)" by (cases e)
  have k: "k \<noteq> []" "v \<noteq> []" "CHR ''='' \<notin> set k" "CHR 0x0A \<notin> set k" "hd k \<noteq> CHR ''#''"
    "k \<noteq> ''NAME''" "line_text v"
    using assms(1) by (simp_all add: entry_survives_def e)
  have lt: "line_text (k @ CHR ''='' # v)"
    using k line_text_append [of v "k @ ''=''"] by simp
  have ns: "\<not> starts_with ''#'' (k @ CHR ''='' # v)"
    using k by (cases k) (simp_all add: starts_with_def)
  have sp: "split_at CHR ''='' (k @ CHR ''='' # v) = (k, v)"
    using k by (intro split_at_found)
  show ?thesis
    using k assms(2)
    by (simp add: e entry_line_def read_line_text [OF lt] dispatch_def ns read_meta_def sp
        map_set_def)
qed

lemma entries_read:
  assumes "list_all entry_survives items" "mode st = META"
  shows "read_lines stold stof st (map entry_line items)
         = Inr (st\<lparr>result := (result st)\<lparr>meta := (meta (result st))
                  \<lparr>meta_values := rev items @ meta_values (meta (result st))\<rparr>\<rparr>\<rparr>)"
  using assms
proof (induction items arbitrary: st)
  case Nil
  then show ?case by simp
next
  case (Cons e items)
  then show ?case
    by (simp add: entry_line_read)
qed

lemma parse_node_line:
  assumes "node_survives to_string stold r"
  shows "parse_node stold (node_line to_string r) = Some r"
proof -
  have a: "CHR '','' \<notin> set (to_string (startID r))" "CHR '','' \<notin> set (to_string (endID r))"
    "to_string (startID r) \<noteq> []" "to_string (endID r) \<noteq> []" "node_type r \<noteq> []"
    "stold (to_string (startID r)) = Some (startID r)"
    "stold (to_string (endID r)) = Some (endID r)"
    using assms by (simp_all add: node_survives_def number_survives_def)
  have s1: "split_at CHR '','' (node_line to_string r)
            = (to_string (startID r), to_string (endID r) @ CHR '','' # node_type r)"
    unfolding node_line_def using split_at_found [OF a(1)] by simp
  have s2: "split_at CHR '','' (to_string (endID r) @ CHR '','' # node_type r)
            = (to_string (endID r), node_type r)"
    using a(2) by (rule split_at_found)
  show ?thesis
    by (simp add: parse_node_def s1 s2 a)
qed

lemma parse_block_line:
  assumes "block_survives to_string to_string_f stold stof b"
  shows "parse_block stold stof (block_line to_string to_string_f b) = Some b"
proof -
  have a: "CHR '','' \<notin> set (to_string (startX b))" "CHR '','' \<notin> set (to_string (endX b))"
    "CHR '','' \<notin> set (to_string (startY b))" "CHR '','' \<notin> set (to_string (endY b))"
    and ne: "to_string (startX b) \<noteq> []" "to_string (endX b) \<noteq> []"
    "to_string (startY b) \<noteq> []" "to_string (endY b) \<noteq> []"
    "to_string_f (expression_probability b) \<noteq> []"
    and v: "stold (to_string (startX b)) = Some (startX b)"
    "stold (to_string (endX b)) = Some (endX b)"
    "stold (to_string (startY b)) = Some (startY b)"
    "stold (to_string (endY b)) = Some (endY b)"
    "stof (to_string_f (expression_probability b)) = Some (expression_probability b)"
    using assms
    by (simp_all add: block_survives_def number_survives_def probability_survives_def)
  let ?p = "to_string_f (expression_probability b)"
  let ?r3 = "to_string (endY b) @ CHR '','' # ?p"
  let ?r2 = "to_string (startY b) @ CHR '','' # ?r3"
  let ?r1 = "to_string (endX b) @ CHR '','' # ?r2"
  have s1: "split_at CHR '','' (block_line to_string to_string_f b) = (to_string (startX b), ?r1)"
    unfolding block_line_def using split_at_found [OF a(1)] by simp
  have s2: "split_at CHR '','' ?r1 = (to_string (endX b), ?r2)"
    using a(2) by (rule split_at_found)
  have s3: "split_at CHR '','' ?r2 = (to_string (startY b), ?r3)"
    using a(3) by (rule split_at_found)
  have s4: "split_at CHR '','' ?r3 = (to_string (endY b), ?p)"
    using a(4) by (rule split_at_found)
  show ?thesis
    by (simp add: parse_block_def s1 s2 s3 s4 ne v)
qed

lemma node_line_text:
  assumes "node_survives to_string stold r"
  shows "line_text (node_line to_string r)" "node_line to_string r \<noteq> []"
    "\<not> starts_with ''#'' (node_line to_string r)"
proof -
  have a: "CHR 0x0A \<notin> set (to_string (startID r))" "CHR 0x0A \<notin> set (to_string (endID r))"
    "to_string (startID r) \<noteq> []" "hd (to_string (startID r)) \<noteq> CHR ''#''"
    "node_type r \<noteq> []" "line_text (node_type r)"
    using assms by (simp_all add: node_survives_def number_survives_def)
  show "line_text (node_line to_string r)"
    unfolding node_line_def
    using a line_text_append [of "node_type r" "to_string (startID r) @ '','' @ to_string (endID r) @ '',''"]
    by simp
  show "node_line to_string r \<noteq> []"
    using a by (simp add: node_line_def)
  show "\<not> starts_with ''#'' (node_line to_string r)"
    using a by (cases "to_string (startID r)") (simp_all add: node_line_def starts_with_def)
qed

lemma block_line_text:
  assumes "block_survives to_string to_string_f stold stof b"
  shows "line_text (block_line to_string to_string_f b)" "block_line to_string to_string_f b \<noteq> []"
    "\<not> starts_with ''#'' (block_line to_string to_string_f b)"
proof -
  have a: "CHR 0x0A \<notin> set (to_string (startX b))" "CHR 0x0A \<notin> set (to_string (endX b))"
    "CHR 0x0A \<notin> set (to_string (startY b))" "CHR 0x0A \<notin> set (to_string (endY b))"
    "to_string (startX b) \<noteq> []" "hd (to_string (startX b)) \<noteq> CHR ''#''"
    "to_string_f (expression_probability b) \<noteq> []"
    "line_text (to_string_f (expression_probability b))"
    using assms
    by (simp_all add: block_survives_def number_survives_def probability_survives_def)
  show "line_text (block_line to_string to_string_f b)"
    unfolding block_line_def
    using a line_text_append [of "to_string_f (expression_probability b)"
        "to_string (startX b) @ '','' @ to_string (endX b) @ '','' @ to_string (startY b) @ '',''
         @ to_string (endY b) @ '',''"]
    by simp
  show "block_line to_string to_string_f b \<noteq> []"
    using a by (simp add: block_line_def)
  show "\<not> starts_with ''#'' (block_line to_string to_string_f b)"
    using a by (cases "to_string (startX b)") (simp_all add: block_line_def starts_with_def)
qed

lemma nodes_read:
  assumes "list_all (node_survives to_string stold) ns" "mode st = NODES"
  shows "read_lines stold stof st (map (node_line to_string) ns)
         = Inr (st\<lparr>result := (result st)\<lparr>nodes := nodes (result st) @ ns\<rparr>,
                   has_node := has_node st \<or> ns \<noteq> []\<rparr>)"
  using assms
proof (induction ns arbitrary: st)
  case Nil
  then show ?case by simp
next
  case (Cons r ns)
  then have r: "node_survives to_string stold r" by simp
  have "read_line stold stof st (node_line to_string r)
        = Inr (st\<lparr>result := (result st)\<lparr>nodes := nodes (result st) @ [r]\<rparr>, has_node := True\<rparr>)"
    using Cons.prems(2) node_line_text [OF r] parse_node_line [OF r]
    by (simp add: read_line_text dispatch_def read_nodes_def)
  then show ?case
    using Cons by simp
qed

lemma blocks_read:
  assumes "list_all (block_survives to_string to_string_f stold stof) bs" "mode st = EDGES"
  shows "read_lines stold stof st (map (block_line to_string to_string_f) bs)
         = Inr (st\<lparr>current_blocks := current_blocks st @ bs\<rparr>)"
  using assms
proof (induction bs arbitrary: st)
  case Nil
  then show ?case by simp
next
  case (Cons b bs)
  then have b: "block_survives to_string to_string_f stold stof b" by simp
  have "read_line stold stof st (block_line to_string to_string_f b)
        = Inr (st\<lparr>current_blocks := current_blocks st @ [b]\<rparr>)"
    using Cons.prems(2) block_line_text [OF b] parse_block_line [OF b]
    by (simp add: read_line_text dispatch_def read_edges_def)
  then show ?case
    using Cons by simp
qed

lemma heading_read:
  assumes "line_text t"
  shows "read_line stold stof st (''# EDGES='' @ t)
         = Inr ((save_blocks st)\<lparr>mode := EDGES, current_edge_type := t, current_blocks := []\<rparr>)"
proof -
  have lt: "line_text (''# EDGES='' @ t)"
    using assms by (cases "t = []") (simp_all add: line_text_def)
  have sp: "split_at CHR ''='' (''# EDGES'' @ CHR ''='' # t) = (''# EDGES'', t)"
    by (rule split_at_found) simp
  have "read_line stold stof st (''# EDGES='' @ t) = dispatch stold stof st (''# EDGES='' @ t)"
    using lt by (rule read_line_text) simp
  also have "\<dots> = Inr ((save_blocks st)\<lparr>mode := EDGES, current_edge_type := t,
                                           current_blocks := []\<rparr>)"
    using sp by (simp add: dispatch_def read_directive_def starts_with_def)
  finally show ?thesis .
qed

lemma record_read:
  assumes "record_survives to_string to_string_f stold stof r"
  shows "read_lines stold stof st (record_lines to_string to_string_f r)
         = Inr ((save_blocks st)\<lparr>mode := EDGES, current_edge_type := edge_type r,
                                  current_blocks := blocks r\<rparr>)"
proof -
  have t: "line_text (edge_type r)"
    and bs: "list_all (block_survives to_string to_string_f stold stof) (blocks r)"
    using assms by (simp_all add: record_survives_def)
  let ?st1 = "(save_blocks st)\<lparr>mode := EDGES, current_edge_type := edge_type r, current_blocks := []\<rparr>"
  have "read_lines stold stof ?st1 (map (block_line to_string to_string_f) (blocks r))
        = Inr (?st1\<lparr>current_blocks := current_blocks ?st1 @ blocks r\<rparr>)"
    using bs by (intro blocks_read) simp_all
  then show ?thesis
    unfolding record_lines_def
    by (simp add: heading_read [OF t] read_lines_append read_line_empty del: append.simps)
qed

lemma records_read:
  assumes "list_all (record_survives to_string to_string_f stold stof) rs"
  shows "\<exists>st'. read_lines stold stof st (concat (map (record_lines to_string to_string_f) rs)) = Inr st'
      \<and> result (save_blocks st') = (result (save_blocks st))\<lparr>edges := edges (result (save_blocks st)) @ rs\<rparr>
      \<and> has_edges (save_blocks st') = (has_edges (save_blocks st) \<or> rs \<noteq> [])
      \<and> has_meta st' = has_meta st \<and> has_node st' = has_node st"
  using assms
proof (induction rs arbitrary: st)
  case Nil
  then show ?case by simp
next
  case (Cons r rs)
  then have r: "record_survives to_string to_string_f stold stof r"
    and rest: "list_all (record_survives to_string to_string_f stold stof) rs"
    by simp_all
  let ?st1 = "(save_blocks st)\<lparr>mode := EDGES, current_edge_type := edge_type r,
                                current_blocks := blocks r\<rparr>"
  have ne: "blocks r \<noteq> []" using r by (simp add: record_survives_def)
  have s1: "result (save_blocks ?st1)
            = (result (save_blocks st))\<lparr>edges := edges (result (save_blocks st)) @ [r]\<rparr>"
    "has_edges (save_blocks ?st1)" "has_meta ?st1 = has_meta st" "has_node ?st1 = has_node st"
    using ne by (simp_all add: save_blocks_def)
  from Cons.IH [OF rest, of ?st1] obtain st' where
    st': "read_lines stold stof ?st1 (concat (map (record_lines to_string to_string_f) rs)) = Inr st'"
      "result (save_blocks st')
         = (result (save_blocks ?st1))\<lparr>edges := edges (result (save_blocks ?st1)) @ rs\<rparr>"
      "has_edges (save_blocks st') = (has_edges (save_blocks ?st1) \<or> rs \<noteq> [])"
      "has_meta st' = has_meta ?st1" "has_node st' = has_node ?st1"
    by blast
  have "read_lines stold stof st (concat (map (record_lines to_string to_string_f) (r # rs))) = Inr st'"
    using st'(1) by (simp add: read_lines_append record_read [OF r])
  moreover have "result (save_blocks st')
      = (result (save_blocks st))\<lparr>edges := edges (result (save_blocks st)) @ r # rs\<rparr>"
    unfolding st'(2) s1(1) by simp
  ultimately show ?case
    using st'(3,4,5) s1(2,3,4) by simp
qed

text \<open>
  Claim C4, as amended.  For every model that survives the text format (a name that is
  not empty; meta entries with a key and a value, the key without \<^verbatim>\<open>=\<close>, not \<^verbatim>\<open>NAME\<close> and
  not starting with \<^verbatim>\<open>#\<close>; node types that are not empty; at least one node record and
  one edge record; no edge record without blocks; no newline and no final carriage
  return in any of these texts; and for every endpoint and probability a print that is
  a field and that the library reads back as the same number), reading what the writer
  wrote returns a model with the same name, the same meta map, the same list of node
  records and the same list of edge records.
\<close>

theorem read_write_round_trip:
  assumes "model_survives to_string to_string_f stold stof M"
  shows "\<exists>text M'. write_m1_file to_string to_string_f M = Inr text
      \<and> read_m1_file stold stof text = Inr M'
      \<and> meta_name (meta M') = meta_name (meta M)
      \<and> map_of (meta_values (meta M')) = map_of (meta_values (meta M))
      \<and> nodes M' = nodes M
      \<and> edges M' = edges M"
proof -
  let ?items = "map_items (meta_values (meta M))"
  have name: "meta_name (meta M) \<noteq> []" "line_text (meta_name (meta M))"
    and items: "list_all entry_survives ?items"
    and ns: "nodes M \<noteq> []" "list_all (node_survives to_string stold) (nodes M)"
    and rs: "edges M \<noteq> []" "list_all (record_survives to_string to_string_f stold stof) (edges M)"
    using assms by (simp_all add: model_survives_def)
  have w: "write_m1_file to_string to_string_f M = Inr (unlines (model_lines to_string to_string_f M))"
    using assms by (rule write_m1_file_lines)
  have nl: "\<forall>l \<in> set (model_lines to_string to_string_f M). CHR 0x0A \<notin> set l"
  proof -
    have "\<forall>e \<in> set ?items. CHR 0x0A \<notin> set (entry_line e)"
      using items by (auto simp: list_all_iff entry_survives_def entry_line_def line_text_def)
    moreover have "\<forall>r \<in> set (nodes M). CHR 0x0A \<notin> set (node_line to_string r)"
      using ns(2) node_line_text(1) by (auto simp: list_all_iff line_text_def)
    moreover have "\<forall>r \<in> set (edges M). \<forall>l \<in> set (record_lines to_string to_string_f r).
        CHR 0x0A \<notin> set l"
    proof (intro ballI)
      fix r l
      assume r: "r \<in> set (edges M)" and l: "l \<in> set (record_lines to_string to_string_f r)"
      from r rs(2) have rv: "record_survives to_string to_string_f stold stof r"
        by (simp add: list_all_iff)
      have "CHR 0x0A \<notin> set (block_line to_string to_string_f b)" if "b \<in> set (blocks r)" for b
      proof -
        from that rv have "block_survives to_string to_string_f stold stof b"
          by (simp add: record_survives_def list_all_iff)
        from block_line_text(1) [OF this] show ?thesis
          by (simp add: line_text_def)
      qed
      then show "CHR 0x0A \<notin> set l"
        using l rv by (auto simp: record_lines_def record_survives_def line_text_def)
    qed
    ultimately show ?thesis
      using name(2) by (auto simp: model_lines_def line_text_def)
  qed
  have g: "getlines (unlines (model_lines to_string to_string_f M)) = model_lines to_string to_string_f M"
    using nl by (rule getlines_unlines)
  define st1 where "st1 = initial_state\<lparr>mode := META\<rparr>"
  define st2 where "st2 = st1\<lparr>result := (result st1)\<lparr>meta := (meta (result st1))
      \<lparr>meta_name := meta_name (meta M)\<rparr>\<rparr>, has_meta := True\<rparr>"
  define st3 where "st3 = st2\<lparr>result := (result st2)\<lparr>meta := (meta (result st2))
      \<lparr>meta_values := rev ?items @ meta_values (meta (result st2))\<rparr>\<rparr>\<rparr>"
  define st4 where "st4 = st3\<lparr>mode := NODES\<rparr>"
  define st5 where "st5 = st4\<lparr>result := (result st4)\<lparr>nodes := nodes (result st4) @ nodes M\<rparr>,
      has_node := has_node st4 \<or> nodes M \<noteq> []\<rparr>"
  have r1: "read_line stold stof initial_state ''# META'' = Inr st1"
    by (simp add: read_line_def strip_cr_def dispatch_def read_directive_def starts_with_def st1_def)
  have lt: "line_text (''NAME='' @ meta_name (meta M))"
    using name by (simp add: line_text_def)
  have sp: "split_at CHR ''='' (''NAME'' @ CHR ''='' # meta_name (meta M)) = (''NAME'', meta_name (meta M))"
    by (rule split_at_found) simp
  have "read_line stold stof st1 (''NAME='' @ meta_name (meta M))
        = dispatch stold stof st1 (''NAME='' @ meta_name (meta M))"
    using lt by (rule read_line_text) simp
  also have "\<dots> = Inr st2"
    using sp name(1)
    by (simp add: dispatch_def starts_with_def read_meta_def st1_def st2_def initial_state_def)
  finally have r2: "read_line stold stof st1 (''NAME='' @ meta_name (meta M)) = Inr st2" .
  have r3: "read_lines stold stof st2 (map entry_line ?items) = Inr st3"
    unfolding st3_def using items by (intro entries_read) (simp_all add: st2_def st1_def)
  have r4: "read_line stold stof st3 ''# NODES'' = Inr st4"
    by (simp add: read_line_def strip_cr_def dispatch_def read_directive_def starts_with_def st4_def)
  have r5: "read_lines stold stof st4 (map (node_line to_string) (nodes M)) = Inr st5"
    unfolding st5_def using ns(2) by (intro nodes_read) (simp_all add: st4_def)
  from records_read [OF rs(2), of st5] obtain st' where
    st': "read_lines stold stof st5 (concat (map (record_lines to_string to_string_f) (edges M))) = Inr st'"
      "result (save_blocks st') = (result (save_blocks st5))\<lparr>edges := edges (result (save_blocks st5)) @ edges M\<rparr>"
      "has_edges (save_blocks st') = (has_edges (save_blocks st5) \<or> edges M \<noteq> [])"
      "has_meta st' = has_meta st5" "has_node st' = has_node st5"
    by blast
  have all: "read_lines stold stof initial_state (model_lines to_string to_string_f M) = Inr st'"
    unfolding model_lines_def
    by (simp add: read_lines_append r1 r2 r3 r4 r5 st'(1) read_line_empty del: append.simps)
  have s5: "save_blocks st5 = st5"
    by (simp add: save_blocks_def st5_def st4_def st3_def st2_def st1_def initial_state_def)
  have flags: "has_meta (save_blocks st')" "has_node (save_blocks st')" "has_edges (save_blocks st')"
    using st'(3,4,5) ns(1) rs(1)
    by (simp_all add: save_blocks_def st5_def st4_def st3_def st2_def st1_def)
  have res: "result (save_blocks st')
      = \<lparr>meta = \<lparr>meta_name = meta_name (meta M), meta_values = rev ?items\<rparr>,
         nodes = nodes M, edges = edges M\<rparr>"
    unfolding st'(2) s5
    by (simp add: st5_def st4_def st3_def st2_def st1_def initial_state_def)
  have "read_m1_file stold stof (unlines (model_lines to_string to_string_f M))
        = Inr (result (save_blocks st'))"
    using flags by (simp add: read_m1_file_def g all Let_def)
  moreover have "map_of (rev ?items) = map_of (meta_values (meta M))"
    by (simp add: map_of_rev_distinct distinct_map_items map_of_map_items)
  ultimately show ?thesis
    using w res by simp
qed

text \<open>The theorem at \<^const>\<open>tiny_model\<close>, whose text is \<^const>\<open>toy_file\<close>.\<close>

theorem read_write_round_trip_witness:
  "model_survives toy_to_string toy_to_string toy_stold toy_stold tiny_model
   \<and> write_m1_file toy_to_string toy_to_string tiny_model = Inr toy_file
   \<and> read_m1_file toy_stold toy_stold toy_file = Inr tiny_model"
proof -
  have s: "model_survives toy_to_string toy_to_string toy_stold toy_stold tiny_model"
    by code_simp
  have w: "write_m1_file toy_to_string toy_to_string tiny_model = Inr toy_file"
    by code_simp
  from read_write_round_trip [OF s] w obtain M' where
    "read_m1_file toy_stold toy_stold toy_file = Inr M'"
    "meta_name (meta M') = meta_name (meta tiny_model)"
    "nodes M' = nodes tiny_model" "edges M' = edges tiny_model"
    by auto
  moreover have "read_m1_file toy_stold toy_stold toy_file = Inr tiny_model"
    by (rule toy_file_reads)
  ultimately show ?thesis
    using s w by simp
qed

text \<open>
  Claim C4, as stated, fails: the writer accepts a model without a name (it warns and
  writes \<^verbatim>\<open>NAME=\<close>), and the reader rejects the file it wrote.
\<close>

theorem unnamed_model_is_not_read_back:
  "write_m1_file toy_to_string toy_to_string unnamed_model = Inr unnamed_file
   \<and> read_m1_file toy_stold toy_stold unnamed_file = Inl Missing_Meta"
  by code_simp

section \<open>The blocks of the fitted model\<close>































subsection \<open>The order of the node types\<close>

lemma a_then_b_reader:
  "a_then_b =
     \<lparr>total_node_count = 3, edge_count = [], sbm_matrix = [],
      node_types = [(''A'', 1), (''B'', 2)], edge_colors = [],
      nodes_to_types = [(''1'', ''A''), (''2'', ''B''), (''3'', ''B'')],
      node_in_degrees = [], node_out_degrees = []\<rparr>"
  by code_simp

lemma b_then_a_reader:
  "b_then_a =
     \<lparr>total_node_count = 3, edge_count = [], sbm_matrix = [],
      node_types = [(''B'', 2), (''A'', 1)], edge_colors = [],
      nodes_to_types = [(''2'', ''B''), (''3'', ''B''), (''1'', ''A'')],
      node_in_degrees = [], node_out_degrees = []\<rparr>"
  by code_simp

lemma a_then_b_work:
  "work_container mt19937 shuffle a_then_b seed =
     [\<lparr>nt_count = 1, nt_type = ''A'', edge_data = []\<rparr>,
      \<lparr>nt_count = 2, nt_type = ''B'', edge_data = []\<rparr>]"
  unfolding a_then_b_reader
  by (simp add: work_container_def build_distribution_def read_distribution_def
        setup_containers_def umap_update_def)

lemma b_then_a_work:
  "work_container mt19937 shuffle b_then_a seed =
     [\<lparr>nt_count = 2, nt_type = ''B'', edge_data = []\<rparr>,
      \<lparr>nt_count = 1, nt_type = ''A'', edge_data = []\<rparr>]"
  unfolding b_then_a_reader
  by (simp add: work_container_def build_distribution_def read_distribution_def
        setup_containers_def umap_update_def)

lemma same_observations_a_b: "same_observations a_then_b b_then_a"
  unfolding a_then_b_reader b_then_a_reader
  by (auto simp add: same_observations_def contents_def fun_eq_iff)

text \<open>
  Claim C5 fails.  The node records follow the order in which the container of the
  node types is visited, and the sorting at the end of \<^verbatim>\<open>process\<close> comes after the
  intervals are assigned: two states with the same observations, whose containers are
  visited in different orders, give different node records, whatever the seed.
\<close>

theorem node_intervals_follow_the_iteration_order:
  "same_observations a_then_b b_then_a
   \<and> nodes (fst (process to_float mt19937 shuffle a_then_b meta_data seed)) =
       [\<lparr>startID = 0, endID = 1, node_type = ''A''\<rparr>, \<lparr>startID = 1, endID = 3, node_type = ''B''\<rparr>]
   \<and> nodes (fst (process to_float mt19937 shuffle b_then_a meta_data seed)) =
       [\<lparr>startID = 0, endID = 2, node_type = ''B''\<rparr>, \<lparr>startID = 2, endID = 3, node_type = ''A''\<rparr>]"
proof -
  have a: "nodes (fst (process to_float mt19937 shuffle a_then_b meta_data seed)) =
       [\<lparr>startID = 0, endID = 1, node_type = ''A''\<rparr>, \<lparr>startID = 1, endID = 3, node_type = ''B''\<rparr>]"
    by (simp add: process_def Let_def a_then_b_work)
  have b: "nodes (fst (process to_float mt19937 shuffle b_then_a meta_data seed)) =
       [\<lparr>startID = 0, endID = 2, node_type = ''B''\<rparr>, \<lparr>startID = 2, endID = 3, node_type = ''A''\<rparr>]"
    by (simp add: process_def Let_def b_then_a_work)
  show ?thesis
    using same_observations_a_b a b by simp
qed

subsection \<open>A probability that the rounding lifts above 1\<close>

text \<open>
  With 5 edges between two node types, an out-degree of 2 in a sum of 6 and an
  in-degree of 3 in a sum of 5, the exact product is 1.  In \<^verbatim>\<open>float\<close> the first quotient
  is rounded up, and so are the two products: the probability of the block is
  \<open>1 + 1 / 2 ^ 23\<close>, and the block counts as a failure.
\<close>

lemma round_even_between:
  assumes "of_int f < y" and "y < of_int f + 1" and "y - of_int f \<noteq> 1 / 2"
  shows "round_even y = (if y - of_int f < 1 / 2 then f else f + 1)"
proof -
  have "\<lfloor>y\<rfloor> = f"
    using assms(1,2) by linarith
  then show ?thesis
    using assms(3) by (auto simp: round_even_def)
qed

lemma binary32_five_thirds: "binary32 (5 * (11184811 / 33554432)) = 13981014 / 8388608"
proof -
  have "round_to_precision 24 (5 * (11184811 / 33554432)) =
          of_int (round_even (5 * (11184811 / 33554432) / 2 powi (0 - (int 24 - 1))))
          * 2 powi (0 - (int 24 - 1))"
    by (rule round_to_precision_at) simp_all
  moreover have "round_even (5 * (11184811 / 33554432) / 2 powi (0 - (int 24 - 1))) = 13981014"
    using round_even_between [of 13981013 "5 * (11184811 / 33554432) / 2 powi (0 - (int 24 - 1))"]
    by (simp add: power_int_minus)
  ultimately show ?thesis
    by (simp add: binary32_def power_int_minus)
qed

lemma binary32_three_fifths: "binary32 (3 / 5) = 10066330 / 16777216"
proof -
  have "round_to_precision 24 (3 / 5) =
          of_int (round_even (3 / 5 / 2 powi (- 1 - (int 24 - 1)))) * 2 powi (- 1 - (int 24 - 1))"
    by (rule round_to_precision_at) (simp_all add: power_int_minus)
  moreover have "round_even (3 / 5 / 2 powi (- 1 - (int 24 - 1))) = 10066330"
    using round_even_between [of 10066329 "3 / 5 / 2 powi (- 1 - (int 24 - 1))"]
    by (simp add: power_int_minus)
  ultimately show ?thesis
    by (simp add: binary32_def power_int_minus)
qed

lemma binary32_product:
  "binary32 (13981014 / 8388608 * (10066330 / 16777216)) = 8388609 / 8388608"
proof -
  have "round_to_precision 24 (13981014 / 8388608 * (10066330 / 16777216)) =
          of_int (round_even (13981014 / 8388608 * (10066330 / 16777216) / 2 powi (0 - (int 24 - 1))))
          * 2 powi (0 - (int 24 - 1))"
    by (rule round_to_precision_at) simp_all
  moreover have
    "round_even (13981014 / 8388608 * (10066330 / 16777216) / 2 powi (0 - (int 24 - 1))) = 8388609"
    using round_even_between
      [of 8388608 "13981014 / 8388608 * (10066330 / 16777216) / 2 powi (0 - (int 24 - 1))"]
    by (simp add: power_int_minus)
  ultimately show ?thesis
    by (simp add: binary32_def power_int_minus)
qed

lemma ddcsbm_rounded_above_one:
  "ddcsbm binary32 5 6 5 2 3 = 1 + 1 / 2 ^ 23"
  "ddcsbm (\<lambda>x. x) 5 6 5 2 3 = 1"
proof -
  have n: "binary32 2 = 2" "binary32 3 = 3" "binary32 5 = 5" "binary32 6 = 6"
    using round_to_precision_numeral [of "num.Bit0 num.One" 24]
      round_to_precision_numeral [of "num.Bit1 num.One" 24]
      round_to_precision_numeral [of "num.Bit1 (num.Bit0 num.One)" 24]
      round_to_precision_numeral [of "num.Bit0 (num.Bit1 num.One)" 24]
    by (simp_all add: binary32_def)
  have t: "binary32 (2 / 6) = 11184811 / 33554432"
    using binary32_third by simp
  have "ddcsbm binary32 5 6 5 2 3 =
          binary32 (binary32 (binary32 5 * binary32 (binary32 2 / binary32 6))
                    * binary32 (binary32 3 / binary32 5))"
    by (simp add: ddcsbm_def)
  also have "\<dots> = binary32 (binary32 (5 * binary32 (2 / 6)) * binary32 (3 / 5))"
    by (simp only: n)
  also have "\<dots> = binary32 (binary32 (5 * (11184811 / 33554432)) * (10066330 / 16777216))"
    by (simp only: t binary32_three_fifths)
  also have "\<dots> = binary32 (13981014 / 8388608 * (10066330 / 16777216))"
    by (simp only: binary32_five_thirds)
  also have "\<dots> = 8388609 / 8388608"
    by (rule binary32_product)
  finally show "ddcsbm binary32 5 6 5 2 3 = 1 + 1 / 2 ^ 23"
    by simp
  show "ddcsbm (\<lambda>x. x) 5 6 5 2 3 = 1"
    by (simp add: ddcsbm_def)
qed

end
